theory Spec2Isabelle
  imports Main "HOL-Library.Multiset"
begin

section \<open>Grids\<close>

text \<open>
  \<open>type SudokuBoard = number[][]\<close>: an array of row arrays. Every board of the program is
  built by \<open>Array(9).fill(0).map(() => Array(9).fill(0))\<close> or copied from such a board
  row by row, so a board has nine rows of nine cells; \<open>wf_grid\<close> states this shape and
  that the cells are digits \<open>0..9\<close> (\<open>0\<close> is the empty cell).
\<close>

type_synonym SudokuBoard = "nat list list"

definition wf_grid :: "SudokuBoard \<Rightarrow> bool" where
  "wf_grid b = (length b = 9 \<and> list_all (\<lambda>row. length row = 9 \<and> list_all (\<lambda>v. v \<le> 9) row) b)"

text \<open>\<open>board[row][col] = v\<close>: the row array is updated in place.\<close>

definition setCell :: "SudokuBoard \<Rightarrow> nat \<Rightarrow> nat \<Rightarrow> nat \<Rightarrow> SudokuBoard" where
  "setCell b row col v = b[row := (b ! row)[col := v]]"

definition emptyBoard :: SudokuBoard where
  "emptyBoard = replicate 9 (replicate 9 0)"

text \<open>The number of cells of a board holding \<open>d\<close>.\<close>

definition countOnBoard :: "SudokuBoard \<Rightarrow> nat \<Rightarrow> nat" where
  "countOnBoard b d = count_list (concat b) d"

section \<open>The puzzle engine\<close>

subsection \<open>The constraint checker\<close>

text \<open>
  \<open>isValid\<close>: the three scans of the row, the column and the 3x3 box of the cell, each
  returning \<open>false\<close> at the first cell equal to \<open>num\<close>. The cell itself is scanned too.
\<close>

definition isValid :: "SudokuBoard \<Rightarrow> nat \<Rightarrow> nat \<Rightarrow> nat \<Rightarrow> bool" where
  "isValid b row col num =
     (if list_ex (\<lambda>x. b ! row ! x = num) [0..<9] then False
      else if list_ex (\<lambda>x. b ! x ! col = num) [0..<9] then False
      else let boxRow = row - row mod 3; boxCol = col - col mod 3
           in \<not> list_ex (\<lambda>i. list_ex (\<lambda>j. b ! (boxRow + i) ! (boxCol + j) = num) [0..<3]) [0..<3])"

subsection \<open>The backtracking search\<close>

text \<open>
  \<open>solveSudoku(board, row, col)\<close> mutates the one board it is given and returns a
  boolean; the model returns the boolean with the board as the call leaves it.
  \<open>solveCell\<close> is the body after the wrap-around of \<open>row\<close> and \<open>col\<close>, \<open>solveDigits\<close> the
  \<open>for\<close> loop from \<open>num\<close> on, followed by the reset of the cell.
  Both callers start at \<open>(0, 0)\<close>, from where \<open>row \<le> 9\<close> and \<open>col \<le> 8\<close> throughout. Outside
  this range the source does not return a value (\<open>board[row]\<close> is \<open>undefined\<close> for
  \<open>row > 9\<close> and the access throws; for \<open>col \<ge> 9\<close> the test \<open>++col === 9\<close> is never met
  and the recursion does not end): the model returns \<open>None\<close>.
\<close>

function solveSudoku :: "SudokuBoard \<Rightarrow> nat \<Rightarrow> nat \<Rightarrow> (bool \<times> SudokuBoard) option"
  and solveCell :: "SudokuBoard \<Rightarrow> nat \<Rightarrow> nat \<Rightarrow> (bool \<times> SudokuBoard) option"
  and solveDigits :: "SudokuBoard \<Rightarrow> nat \<Rightarrow> nat \<Rightarrow> nat \<Rightarrow> (bool \<times> SudokuBoard) option"
where
  "solveSudoku b row col =
     (if row > 9 \<or> col \<ge> 9 then None
      else if row = 9 then (if col + 1 = 9 then Some (True, b) else solveCell b 0 (col + 1))
      else solveCell b row col)"
| "solveCell b row col =
     (if b ! row ! col \<noteq> 0 then solveSudoku b (row + 1) col
      else solveDigits b row col 1)"
| "solveDigits b row col num =
     (if num \<le> 9 then
        (if isValid b row col num then
           (case solveSudoku (setCell b row col num) (row + 1) col of
              None \<Rightarrow> None
            | Some (found, b') \<Rightarrow>
                if found then Some (True, b') else solveDigits b' row col (num + 1))
         else solveDigits b row col (num + 1))
      else Some (False, setCell b row col 0))"
  by pat_completeness auto
termination
  by (relation "measure (\<lambda>x. case x of
        Inl (b, row, col) \<Rightarrow> (if row > 9 \<or> col \<ge> 9 then 0 else 13 * ((9 - col) * 10 - row) + 12)
      | Inr (Inl (b, row, col)) \<Rightarrow> (if row > 8 \<or> col \<ge> 9 then 12 else 13 * ((9 - col) * 10 - row) + 11)
      | Inr (Inr (b, row, col, num)) \<Rightarrow>
          (if row > 8 \<or> col \<ge> 9 then 0 else 13 * ((9 - col) * 10 - row)) + (10 - num))")
     (auto split: if_splits)

subsection \<open>The uniqueness counter\<close>

text \<open>
  \<open>countSolutionsHelper\<close>, with the same structure: \<open>countCell\<close> is the body after the
  wrap-around, \<open>countDigits\<close> the loop \<open>for (num; num <= 9 && count < 2; num++)\<close> followed
  by the reset of the cell. The argument \<open>cnt\<close> is the source's \<open>count\<close>.
  \<open>countSolutions\<close> runs the helper on a row-by-row copy of its argument.
\<close>

function countSolutionsHelper :: "SudokuBoard \<Rightarrow> nat \<Rightarrow> nat \<Rightarrow> nat \<Rightarrow> (nat \<times> SudokuBoard) option"
  and countCell :: "SudokuBoard \<Rightarrow> nat \<Rightarrow> nat \<Rightarrow> nat \<Rightarrow> (nat \<times> SudokuBoard) option"
  and countDigits :: "SudokuBoard \<Rightarrow> nat \<Rightarrow> nat \<Rightarrow> nat \<Rightarrow> nat \<Rightarrow> (nat \<times> SudokuBoard) option"
where
  "countSolutionsHelper b row col cnt =
     (if row > 9 \<or> col \<ge> 9 then None
      else if row = 9 then (if col + 1 = 9 then Some (cnt + 1, b) else countCell b 0 (col + 1) cnt)
      else countCell b row col cnt)"
| "countCell b row col cnt =
     (if b ! row ! col \<noteq> 0 then countSolutionsHelper b (row + 1) col cnt
      else countDigits b row col 1 cnt)"
| "countDigits b row col num cnt =
     (if num \<le> 9 \<and> cnt < 2 then
        (if isValid b row col num then
           (case countSolutionsHelper (setCell b row col num) (row + 1) col cnt of
              None \<Rightarrow> None
            | Some (cnt', b') \<Rightarrow> countDigits b' row col (num + 1) cnt')
         else countDigits b row col (num + 1) cnt)
      else Some (cnt, setCell b row col 0))"
  by pat_completeness auto
termination
  by (relation "measure (\<lambda>x. case x of
        Inl (b, row, col, cnt) \<Rightarrow> (if row > 9 \<or> col \<ge> 9 then 0 else 13 * ((9 - col) * 10 - row) + 12)
      | Inr (Inl (b, row, col, cnt)) \<Rightarrow> (if row > 8 \<or> col \<ge> 9 then 12 else 13 * ((9 - col) * 10 - row) + 11)
      | Inr (Inr (b, row, col, num, cnt)) \<Rightarrow>
          (if row > 8 \<or> col \<ge> 9 then 0 else 13 * ((9 - col) * 10 - row)) + (10 - num))")
     (auto split: if_splits)

declare solveSudoku.simps [simp del] solveCell.simps [simp del] solveDigits.simps [simp del]
declare countSolutionsHelper.simps [simp del] countCell.simps [simp del] countDigits.simps [simp del]

definition countSolutions :: "SudokuBoard \<Rightarrow> nat option" where
  "countSolutions board =
     (let tempBoard = map (\<lambda>row. row) board
      in map_option fst (countSolutionsHelper tempBoard 0 0 0))"

subsection \<open>The puzzle carver\<close>




subsection \<open>Solved grids and completions\<close>

text \<open>
  The 27 units of a grid, as lists of their nine values: the rows, the columns, and the
  boxes (box \<open>k\<close> is the box with index \<open>(row div 3) * 3 + col div 3 = k\<close>).
\<close>

definition rowValues :: "SudokuBoard \<Rightarrow> nat \<Rightarrow> nat list" where
  "rowValues s r = map (\<lambda>c. s ! r ! c) [0..<9]"

definition colValues :: "SudokuBoard \<Rightarrow> nat \<Rightarrow> nat list" where
  "colValues s c = map (\<lambda>r. s ! r ! c) [0..<9]"

definition boxValues :: "SudokuBoard \<Rightarrow> nat \<Rightarrow> nat list" where
  "boxValues s k = map (\<lambda>n. s ! (3 * (k div 3) + n div 3) ! (3 * (k mod 3) + n mod 3)) [0..<9]"

definition units :: "SudokuBoard \<Rightarrow> nat list list" where
  "units s = map (rowValues s) [0..<9] @ map (colValues s) [0..<9] @ map (boxValues s) [0..<9]"

text \<open>A solved grid: every row, column and box is a permutation of 1..9.\<close>

definition solved :: "SudokuBoard \<Rightarrow> bool" where
  "solved s = (wf_grid s \<and> list_all (\<lambda>vs. mset vs = mset [1..<10]) (units s))"

text \<open>A grid whose digits do not conflict: no unit holds a digit twice.\<close>

definition consistent :: "SudokuBoard \<Rightarrow> bool" where
  "consistent s = list_all (\<lambda>vs. distinct (filter (\<lambda>v. v \<noteq> 0) vs)) (units s)"

text \<open>\<open>s\<close> agrees with \<open>g\<close> on every non-empty cell of \<open>g\<close>.\<close>

definition extends :: "SudokuBoard \<Rightarrow> SudokuBoard \<Rightarrow> bool" where
  "extends g s = list_all (\<lambda>r. list_all (\<lambda>c. g ! r ! c = 0 \<or> s ! r ! c = g ! r ! c) [0..<9]) [0..<9]"

definition completions :: "SudokuBoard \<Rightarrow> SudokuBoard set" where
  "completions g = {s. solved s \<and> extends g s}"

text \<open>Two cells share a unit; the cells before index \<open>n\<close> of the column-major order are filled.\<close>

definition sameUnit :: "nat \<Rightarrow> nat \<Rightarrow> nat \<Rightarrow> nat \<Rightarrow> bool" where
  "sameUnit r c r' c' = (r = r' \<or> c = c' \<or> (r div 3 = r' div 3 \<and> c div 3 = c' div 3))"

definition filledBefore :: "SudokuBoard \<Rightarrow> nat \<Rightarrow> bool" where
  "filledBefore b n = (\<forall>r<9. \<forall>c<9. c * 9 + r < n \<longrightarrow> b ! r ! c \<noteq> 0)"

subsection \<open>Depth-first search over a list of cells\<close>

text \<open>
  The search as the specification words it, for a given order of the cells: the cells are
  visited in the order of the list, a filled cell is skipped, at an empty cell the digits
  of the list are tried in order, each valid one followed by the search of the remaining
  cells, and when all digits are exhausted the cell is reset to 0 and the failure handed
  back to the cell before.
\<close>

fun search :: "(nat \<times> nat) list \<Rightarrow> SudokuBoard \<Rightarrow> bool \<times> SudokuBoard"
  and tryDigits :: "(nat \<times> nat) list \<Rightarrow> nat \<Rightarrow> nat \<Rightarrow> nat list \<Rightarrow> SudokuBoard \<Rightarrow> bool \<times> SudokuBoard"
where
  "search [] b = (True, b)"
| "search ((r, c) # rest) b =
     (if b ! r ! c \<noteq> 0 then search rest b else tryDigits rest r c [1..<10] b)"
| "tryDigits rest r c [] b = (False, setCell b r c 0)"
| "tryDigits rest r c (d # ds) b =
     (if isValid b r c d
      then (case search rest (setCell b r c d) of
              (True, b') \<Rightarrow> (True, b')
            | (False, b') \<Rightarrow> tryDigits rest r c ds b')
      else tryDigits rest r c ds b)"

text \<open>Column-major order runs down each column in turn, row-major along each row.\<close>

definition columnMajor :: "(nat \<times> nat) list" where
  "columnMajor = map (\<lambda>n. (n mod 9, n div 9)) [0..<81]"

definition rowMajor :: "(nat \<times> nat) list" where
  "rowMajor = map (\<lambda>n. (n div 9, n mod 9)) [0..<81]"

text \<open>A grid with six empty cells and two completions.\<close>

definition twoWayPuzzle :: SudokuBoard where
  "twoWayPuzzle =
    [[3,4,5,0,0,6,7,8,9],
     [6,1,2,7,8,9,3,4,5],
     [7,8,9,3,4,5,1,2,6],
     [0,5,6,8,0,3,9,7,4],
     [0,7,8,0,9,4,5,6,3],
     [4,9,3,5,6,7,2,1,8],
     [5,2,1,4,3,8,6,9,7],
     [8,6,7,9,5,1,4,3,2],
     [9,3,4,6,7,2,8,5,1]]"

definition twoWayFirst :: SudokuBoard where
  "twoWayFirst =
    [[3,4,5,2,1,6,7,8,9],
     [6,1,2,7,8,9,3,4,5],
     [7,8,9,3,4,5,1,2,6],
     [1,5,6,8,2,3,9,7,4],
     [2,7,8,1,9,4,5,6,3],
     [4,9,3,5,6,7,2,1,8],
     [5,2,1,4,3,8,6,9,7],
     [8,6,7,9,5,1,4,3,2],
     [9,3,4,6,7,2,8,5,1]]"

definition twoWaySecond :: SudokuBoard where
  "twoWaySecond =
    [[3,4,5,1,2,6,7,8,9],
     [6,1,2,7,8,9,3,4,5],
     [7,8,9,3,4,5,1,2,6],
     [2,5,6,8,1,3,9,7,4],
     [1,7,8,2,9,4,5,6,3],
     [4,9,3,5,6,7,2,1,8],
     [5,2,1,4,3,8,6,9,7],
     [8,6,7,9,5,1,4,3,2],
     [9,3,4,6,7,2,8,5,1]]"

text \<open>No two cells of a unit hold the same digit, cell by cell.\<close>

definition noConflict :: "SudokuBoard \<Rightarrow> bool" where
  "noConflict b = (\<forall>r<9. \<forall>c<9. \<forall>r'<9. \<forall>c'<9.
      (r \<noteq> r' \<or> c \<noteq> c') \<and> sameUnit r c r' c' \<and> b ! r ! c \<noteq> 0 \<longrightarrow> b ! r ! c \<noteq> b ! r' ! c')"

text \<open>The same, unit by unit.\<close>

definition unitsDistinct :: "SudokuBoard \<Rightarrow> bool" where
  "unitsDistinct b =
    ((\<forall>r<9. \<forall>i<9. \<forall>j<9. i \<noteq> j \<and> b ! r ! i \<noteq> 0 \<longrightarrow> b ! r ! i \<noteq> b ! r ! j)
   \<and> (\<forall>c<9. \<forall>i<9. \<forall>j<9. i \<noteq> j \<and> b ! i ! c \<noteq> 0 \<longrightarrow> b ! i ! c \<noteq> b ! j ! c)
   \<and> (\<forall>k<9. \<forall>i<9. \<forall>j<9. i \<noteq> j
         \<and> b ! (3 * (k div 3) + i div 3) ! (3 * (k mod 3) + i mod 3) \<noteq> 0 \<longrightarrow>
         b ! (3 * (k div 3) + i div 3) ! (3 * (k mod 3) + i mod 3)
           \<noteq> b ! (3 * (k div 3) + j div 3) ! (3 * (k mod 3) + j mod 3)))"

text \<open>The completions of a grid with the cell set to the digits from \<open>num\<close> on.\<close>

definition fromDigit :: "SudokuBoard \<Rightarrow> nat \<Rightarrow> nat \<Rightarrow> nat \<Rightarrow> SudokuBoard set" where
  "fromDigit b r c num = (\<Union>d \<in> {num..9}. completions (setCell b r c d))"


text \<open>A grid whose givens conflict.\<close>

definition allOnes :: SudokuBoard where
  "allOnes = replicate 9 (replicate 9 1)"



section \<open>The play session\<close>

subsection \<open>State, shared rows and memoised callbacks\<close>

text \<open>
  \<open>vars\<close> holds the \<open>useState\<close> cells of \<open>SudokuGame\<close> that the handlers read and write.
  A render of the component is a value of \<open>vars\<close>: a callback or an effect built in a
  render closes over the values the cells have in that render.

  Arrays and objects are compared by identity in dependency arrays, so the model numbers
  them: \<open>boardId\<close>, \<open>selectedId\<close> and \<open>usageId\<close> grow by one with every \<open>setBoard\<close>,
  \<open>setSelectedCell\<close> and \<open>setNumberUsage\<close> (each call passes or produces a new array or
  object). \<open>solution\<close> is only ever set together with \<open>board\<close>, in \<open>generateSudoku\<close>.

  \<open>[...board]\<close> copies the outer array only: every board made since a \<open>generateSudoku\<close>
  shares the nine row arrays allocated there, and \<open>newBoard[row][col] = num\<close> writes into
  a shared row. \<open>boardRows\<close> names the allocation of the rows of a board, and the contents
  of the rows of every allocation are kept in \<open>rowStore\<close> (an allocation is numbered by
  the \<open>boardId\<close> of the board it was made for). \<open>solution\<close> and \<open>initialBoard\<close> are
  separate row-by-row copies that nothing writes to.
\<close>

record vars =
  boardId :: nat
  boardRows :: nat
  solution :: SudokuBoard
  initialBoard :: SudokuBoard
  selectedCell :: "(nat \<times> nat) option"
  selectedId :: nat
  difficulty :: string
  playerName :: string
  profileCreated :: bool
  gameStarted :: bool
  timer :: nat
  gameCompleted :: bool
  bestTimes :: "string \<rightharpoonup> nat"
  isPaused :: bool
  numberUsage :: "nat \<Rightarrow> int"
  usageId :: nat
  wrongAttempts :: nat
  hintsRemaining :: int
  lastSmartMove :: string

text \<open>
  The component between two events: the cells of the last render, the rows, the
  \<open>bestTimes\<close> object store of the IndexedDB database (keyed by \<open>[playerName, difficulty]\<close>),
  and the two closures that outlive a render (a closure is given by the cells of the
  render it was built in, \<open>cells\<close>):

  \<^item> \<open>inputClosure\<close>, the render in which \<open>useCallback\<close> last rebuilt \<open>handleNumberInput\<close>
    (dependencies \<open>[board, gameCompleted, isPaused, numberUsage, selectedCell, solution,
    wrongAttempts]\<close>). The callback also closes over \<open>checkForSmartMove\<close>,
    \<open>isBoardComplete\<close> and \<open>saveBestTime\<close> as they are in that render; their own dependency
    arrays name every cell they read, so in that render they read its values of
    \<open>lastSmartMove\<close>, \<open>solution\<close>, \<open>playerName\<close>, \<open>difficulty\<close> and \<open>timer\<close>.
  \<^item> the \<open>keydown\<close> listener, registered by an effect with dependencies \<open>[selectedCell,
    gameStarted, gameCompleted, isPaused]\<close>: \<open>listenerRender\<close> is the render of its last
    registration and \<open>listenerInput\<close> the \<open>handleNumberInput\<close> of that render.

  \<open>handleCellClick\<close>, \<open>provideHint\<close>, \<open>togglePause\<close> and \<open>generateSudoku\<close> name in their
  dependency arrays every cell they read, and the buttons call the callback of the
  current render: they read the current values.
\<close>

datatype closure = Closure (cells: vars)

record state = vars +
  rowStore :: "nat \<Rightarrow> SudokuBoard"
  bestTimesStore :: "string \<times> string \<rightharpoonup> nat"
  inputClosure :: closure
  listenerRender :: closure
  listenerInput :: closure

text \<open>The closure over the current cells.\<close>

definition capture :: "state \<Rightarrow> closure" where
  "capture st = Closure
     \<lparr> boardId = boardId st, boardRows = boardRows st, solution = solution st,
       initialBoard = initialBoard st, selectedCell = selectedCell st, selectedId = selectedId st,
       difficulty = difficulty st, playerName = playerName st, profileCreated = profileCreated st,
       gameStarted = gameStarted st, timer = timer st, gameCompleted = gameCompleted st,
       bestTimes = bestTimes st, isPaused = isPaused st, numberUsage = numberUsage st,
       usageId = usageId st, wrongAttempts = wrongAttempts st, hintsRemaining = hintsRemaining st,
       lastSmartMove = lastSmartMove st \<rparr>"

text \<open>The contents of the board of the current render.\<close>

definition board :: "state \<Rightarrow> SudokuBoard" where
  "board st = rowStore st (boardRows st)"

text \<open>The notifications shown through \<open>toast\<close>, in the order of their calls.\<close>

datatype toast =
    GameOver
  | WrongNumber nat
  | NoMoreLeft nat
  | SmartMove string
  | Congratulations
  | AlreadyHasNumber
  | Hint nat bool bool bool
  | GamePaused
  | GameResumed

text \<open>
  The component after mounting: the \<open>useState\<close> initial values, the first effect having
  set \<open>numberUsage[i] = 9\<close> for \<open>i = 1..9\<close>, and \<open>handleNumberInput\<close> rebuilt in the render
  that followed. The listener registered at mount belongs to the first render; it cannot
  get past its \<open>gameStarted\<close> test and is replaced when a game starts, and the model gives
  it the mounted values.
\<close>

definition mountedVars :: vars where
  "mountedVars = \<lparr> boardId = 0, boardRows = 0, solution = emptyBoard, initialBoard = emptyBoard,
     selectedCell = None, selectedId = 0, difficulty = ''medium'', playerName = '''',
     profileCreated = False, gameStarted = False, timer = 0, gameCompleted = False,
     bestTimes = Map.empty, isPaused = False,
     numberUsage = (\<lambda>i. if 1 \<le> i \<and> i \<le> 9 then 9 else 0), usageId = 1, wrongAttempts = 0,
     hintsRemaining = 3, lastSmartMove = '''' \<rparr>"

definition initialState :: state where
  "initialState = \<lparr> boardId = 0, boardRows = 0, solution = emptyBoard, initialBoard = emptyBoard,
     selectedCell = None, selectedId = 0, difficulty = ''medium'', playerName = '''',
     profileCreated = False, gameStarted = False, timer = 0, gameCompleted = False,
     bestTimes = Map.empty, isPaused = False,
     numberUsage = (\<lambda>i. if 1 \<le> i \<and> i \<le> 9 then 9 else 0), usageId = 1, wrongAttempts = 0,
     hintsRemaining = 3, lastSmartMove = '''',
     rowStore = (\<lambda>n. emptyBoard), bestTimesStore = Map.empty,
     inputClosure = Closure mountedVars, listenerRender = Closure mountedVars,
     listenerInput = Closure mountedVars \<rparr>"

subsection \<open>Rendering: \<open>useCallback\<close> and the effects\<close>

text \<open>
  The dependencies of \<open>handleNumberInput\<close> and of the \<open>keydown\<close> effect, as the values
  React compares: identities for the array and the objects, values for the rest.
\<close>

definition inputDeps :: "'a vars_scheme \<Rightarrow> nat \<times> bool \<times> bool \<times> nat \<times> nat \<times> nat" where
  "inputDeps v = (boardId v, gameCompleted v, isPaused v, usageId v, selectedId v, wrongAttempts v)"

definition listenerDeps :: "'a vars_scheme \<Rightarrow> nat \<times> bool \<times> bool \<times> bool" where
  "listenerDeps v = (selectedId v, gameStarted v, gameCompleted v, isPaused v)"

text \<open>\<open>useCallback\<close> in a render: the callback is rebuilt when a dependency has changed.\<close>

definition rebuild :: "state \<Rightarrow> state" where
  "rebuild st =
     (if inputDeps (cells (inputClosure st)) = inputDeps st then st
      else st\<lparr>inputClosure := capture st\<rparr>)"

text \<open>
  \<open>useEffect(..., [board])\<close>: the object is copied, all of \<open>1..9\<close> are reset to 9, then
  every cell \<open>> 0\<close> decrements its own entry, and the new object is stored.
  \<open>recount usage b\<close> is that object.
\<close>

definition recount :: "(nat \<Rightarrow> int) \<Rightarrow> SudokuBoard \<Rightarrow> nat \<Rightarrow> int" where
  "recount usage b i =
     (if 1 \<le> i \<and> i \<le> 9 then 9 else usage i) - (if 0 < i then int (countOnBoard b i) else 0)"

definition usageEffect :: "state \<Rightarrow> state" where
  "usageEffect st =
     (if gameStarted st
      then st\<lparr>numberUsage := recount (numberUsage st) (board st), usageId := usageId st + 1\<rparr>
      else st)"

text \<open>
  The renders that follow an event (React 18: the state updates of one handler are applied
  together, in one render). \<open>prev\<close> is the component before the event, \<open>st\<close> the cells as
  the handler left them. In the render \<open>handleNumberInput\<close> is rebuilt if need be; then its
  effects run: the listener is registered anew when one of its dependencies differs from
  the previous render, with the \<open>handleNumberInput\<close> of this render, and when \<open>board\<close> is a
  new array the recount effect stores a new \<open>numberUsage\<close>, which makes one more render
  (in which only \<open>handleNumberInput\<close> is rebuilt).
\<close>

definition render :: "state \<Rightarrow> state \<Rightarrow> state" where
  "render prev st =
     (let st1 = rebuild st;
          st2 = (if listenerDeps st1 = listenerDeps prev then st1
                 else st1\<lparr>listenerRender := capture st1, listenerInput := inputClosure st1\<rparr>)
      in if boardId st2 = boardId prev then st2 else rebuild (usageEffect st2))"

subsection \<open>Starting a game\<close>

text \<open>
  \<open>generateSudoku\<close>, with the results of \<open>generateSolvedBoard()\<close> and
  \<open>createPuzzle(solvedBoard, difficulty)\<close> passed in (both draw on \<open>Math.random\<close>).
  \<open>board\<close> gets a copy with rows of its own. The selected cell is not reset.
\<close>

definition generateSudoku :: "state \<Rightarrow> SudokuBoard \<Rightarrow> SudokuBoard \<Rightarrow> state" where
  "generateSudoku st solvedBoard puzzleBoard =
     st\<lparr>gameStarted := True, gameCompleted := False, timer := 0, wrongAttempts := 0,
        hintsRemaining := 3, isPaused := False, lastSmartMove := '''',
        solution := solvedBoard,
        boardId := boardId st + 1, boardRows := boardId st + 1,
        rowStore := (rowStore st)(boardId st + 1 := puzzleBoard),
        initialBoard := puzzleBoard\<rparr>"

subsection \<open>Selecting a cell\<close>

definition handleCellClick :: "state \<Rightarrow> nat \<Rightarrow> nat \<Rightarrow> state" where
  "handleCellClick st row col =
     (if initialBoard st ! row ! col = 0 \<and> \<not> gameCompleted st \<and> \<not> isPaused st
      then st\<lparr>selectedCell := Some (row, col), selectedId := selectedId st + 1\<rparr>
      else st)"

subsection \<open>Smart moves, completion, best time\<close>

definition isRowComplete :: "SudokuBoard \<Rightarrow> nat \<Rightarrow> bool" where
  "isRowComplete b row = list_all (\<lambda>cell. cell \<noteq> 0) (b ! row)"

definition isColComplete :: "SudokuBoard \<Rightarrow> nat \<Rightarrow> bool" where
  "isColComplete b col = list_all (\<lambda>r. r ! col \<noteq> 0) b"

definition isBoxComplete :: "SudokuBoard \<Rightarrow> nat \<Rightarrow> nat \<Rightarrow> bool" where
  "isBoxComplete b row col =
     (let boxRow = (row div 3) * 3; boxCol = (col div 3) * 3
      in list_all (\<lambda>i. list_all (\<lambda>j. b ! (boxRow + i) ! (boxCol + j) \<noteq> 0) [0..<3]) [0..<3])"

definition moveType :: "bool \<Rightarrow> bool \<Rightarrow> bool \<Rightarrow> string" where
  "moveType rowC colC boxC =
     (if rowC \<and> colC \<and> boxC then ''row, column and box''
      else if rowC \<and> colC then ''row and column''
      else if rowC \<and> boxC then ''row and box''
      else if colC \<and> boxC then ''column and box''
      else if rowC then ''row''
      else if colC then ''column''
      else if boxC then ''box''
      else '''')"

text \<open>
  In the three functions below \<open>cl\<close> is the render the callback was built in (what it
  reads) and \<open>st\<close> the component its \<open>set...\<close> calls and its store requests act on.
\<close>

definition checkForSmartMove ::
  "vars \<Rightarrow> state \<Rightarrow> SudokuBoard \<Rightarrow> nat \<Rightarrow> nat \<Rightarrow> nat \<Rightarrow> state \<times> toast list" where
  "checkForSmartMove cl st b row col num =
     (if num = 0 then (st, [])
      else let mt = moveType (isRowComplete b row) (isColComplete b col) (isBoxComplete b row col)
           in if mt \<noteq> '''' \<and> mt \<noteq> lastSmartMove cl
              then (st\<lparr>lastSmartMove := mt\<rparr>, [SmartMove mt])
              else (st, []))"

definition isBoardComplete :: "SudokuBoard \<Rightarrow> SudokuBoard \<Rightarrow> bool" where
  "isBoardComplete currentBoard sol =
     list_all (\<lambda>i. list_all (\<lambda>j. \<not> (currentBoard ! i ! j = 0 \<or> currentBoard ! i ! j \<noteq> sol ! i ! j))
                     [0..<9]) [0..<9]"

text \<open>
  \<open>saveBestTime\<close>: the record of \<open>[playerName, difficulty]\<close> is read and, when there is
  none or \<open>timer\<close> is below its time, replaced; the request callbacks are run at once.
\<close>

definition saveBestTime :: "vars \<Rightarrow> state \<Rightarrow> state" where
  "saveBestTime cl st =
     (if playerName cl \<noteq> ''''
      then (case bestTimesStore st (playerName cl, difficulty cl) of
              None \<Rightarrow> st\<lparr>bestTimesStore := (bestTimesStore st)((playerName cl, difficulty cl) \<mapsto> timer cl),
                         bestTimes := (bestTimes st)(difficulty cl \<mapsto> timer cl)\<rparr>
            | Some t \<Rightarrow>
                if timer cl < t
                then st\<lparr>bestTimesStore := (bestTimesStore st)((playerName cl, difficulty cl) \<mapsto> timer cl),
                        bestTimes := (bestTimes st)(difficulty cl \<mapsto> timer cl)\<rparr>
                else st)
      else st)"

subsection \<open>Entering a digit\<close>

text \<open>
  The two \<open>setNumberUsage\<close> updaters of a placement, in their order; they act on the
  current object.
\<close>

definition adjustUsage :: "(nat \<Rightarrow> int) \<Rightarrow> nat \<Rightarrow> nat \<Rightarrow> (nat \<Rightarrow> int)" where
  "adjustUsage usage previousValue num =
     (let u1 = (if previousValue > 0 then usage(previousValue := usage previousValue + 1) else usage)
      in if num > 0 then u1(num := u1 num - 1) else u1)"

text \<open>
  The tail of \<open>handleNumberInput\<close>, from \<open>const newBoard = [...board]\<close> on. \<open>board\<close> is the
  array of the render \<open>cl\<close>; the new array shares its rows, the cell is written into the
  shared row and the new array stored. Then the budget is adjusted, and smart move and
  completion are checked.
\<close>

definition commitMove :: "vars \<Rightarrow> state \<Rightarrow> nat \<Rightarrow> nat \<Rightarrow> nat \<Rightarrow> state \<times> toast list" where
  "commitMove cl st row col num =
     (let previousValue = rowStore st (boardRows cl) ! row ! col;
          newBoard = setCell (rowStore st (boardRows cl)) row col num;
          st1 = st\<lparr>rowStore := (rowStore st)(boardRows cl := newBoard),
                   boardRows := boardRows cl, boardId := boardId st + 1,
                   numberUsage := adjustUsage (numberUsage st) previousValue num,
                   usageId := (if previousValue > 0 \<or> num > 0 then usageId st + 1 else usageId st)\<rparr>;
          sm = checkForSmartMove cl st1 newBoard row col num
      in if isBoardComplete newBoard (solution cl)
         then (saveBestTime cl ((fst sm)\<lparr>gameCompleted := True\<rparr>), snd sm @ [Congratulations])
         else sm)"

text \<open>The body of \<open>handleNumberInput\<close>, run by the callback that was built in the render \<open>cl\<close>.\<close>

definition runNumberInput :: "vars \<Rightarrow> state \<Rightarrow> nat \<Rightarrow> state \<times> toast list" where
  "runNumberInput cl st num =
     (case selectedCell cl of
        None \<Rightarrow> (st, [])
      | Some (row, col) \<Rightarrow>
          if \<not> gameCompleted cl \<and> \<not> isPaused cl then
            if num \<noteq> 0 \<and> num \<noteq> solution cl ! row ! col then
              let newWrongAttempts = wrongAttempts cl + 1;
                  st1 = st\<lparr>wrongAttempts := newWrongAttempts\<rparr>
              in if newWrongAttempts \<ge> 3
                 then (st1\<lparr>gameCompleted := True\<rparr>, [GameOver])
                 else (st1, [WrongNumber (3 - newWrongAttempts)])
            else if num \<noteq> 0 \<and> numberUsage cl num \<le> 0 then (st, [NoMoreLeft num])
            else commitMove cl st row col num
          else (st, []))"

text \<open>
  \<open>handleNumberInput\<close> as the number pad calls it: the callback of the current render,
  which is the one \<open>useCallback\<close> last rebuilt.
\<close>

definition handleNumberInput :: "state \<Rightarrow> nat \<Rightarrow> state \<times> toast list" where
  "handleNumberInput st num = runNumberInput (cells (inputClosure st)) st num"

subsection \<open>Keyboard, hint, pause, timer, profile\<close>

datatype key = DigitKey nat | Backspace | Delete | ArrowUp | ArrowDown | ArrowLeft | ArrowRight | OtherKey

text \<open>
  \<open>handleKeyDown\<close>, the listener on \<open>window\<close>. It reads the cells of the render it was
  registered in and calls the \<open>handleNumberInput\<close> of that render. \<open>DigitKey n\<close> is the key
  whose \<open>e.key\<close> is the decimal digit \<open>n\<close>; the arrow keys move the selection to the
  neighbouring cell inside the board.
\<close>

definition handleKeyDown :: "state \<Rightarrow> key \<Rightarrow> state \<times> toast list" where
  "handleKeyDown st k =
     (if \<not> gameStarted (cells (listenerRender st)) \<or> gameCompleted (cells (listenerRender st))
         \<or> isPaused (cells (listenerRender st)) then (st, [])
      else case selectedCell (cells (listenerRender st)) of
        None \<Rightarrow> (st, [])
      | Some (row, col) \<Rightarrow>
          (case k of
             DigitKey n \<Rightarrow> if 1 \<le> n \<and> n \<le> 9 then runNumberInput (cells (listenerInput st)) st n else (st, [])
           | Backspace \<Rightarrow> runNumberInput (cells (listenerInput st)) st 0
           | Delete \<Rightarrow> runNumberInput (cells (listenerInput st)) st 0
           | ArrowUp \<Rightarrow>
               (if row > 0 then st\<lparr>selectedCell := Some (row - 1, col), selectedId := selectedId st + 1\<rparr>
                else st, [])
           | ArrowDown \<Rightarrow>
               (if row < 8 then st\<lparr>selectedCell := Some (row + 1, col), selectedId := selectedId st + 1\<rparr>
                else st, [])
           | ArrowLeft \<Rightarrow>
               (if col > 0 then st\<lparr>selectedCell := Some (row, col - 1), selectedId := selectedId st + 1\<rparr>
                else st, [])
           | ArrowRight \<Rightarrow>
               (if col < 8 then st\<lparr>selectedCell := Some (row, col + 1), selectedId := selectedId st + 1\<rparr>
                else st, [])
           | OtherKey \<Rightarrow> (st, [])))"

definition provideHint :: "state \<Rightarrow> state \<times> toast list" where
  "provideHint st =
     (case selectedCell st of
        None \<Rightarrow> (st, [])
      | Some (row, col) \<Rightarrow>
          if hintsRemaining st \<le> 0 \<or> gameCompleted st \<or> isPaused st then (st, [])
          else if board st ! row ! col \<noteq> 0 then (st, [AlreadyHasNumber])
          else
            let correctNumber = solution st ! row ! col;
                inRow = list_ex (\<lambda>n. n \<noteq> 0 \<and> n = correctNumber) (board st ! row);
                inCol = list_ex (\<lambda>r. r ! col \<noteq> 0 \<and> r ! col = correctNumber) (board st);
                boxRow = (row div 3) * 3; boxCol = (col div 3) * 3;
                inBox = list_ex (\<lambda>i. list_ex (\<lambda>j. board st ! (boxRow + i) ! (boxCol + j) \<noteq> 0
                            \<and> board st ! (boxRow + i) ! (boxCol + j) = correctNumber) [0..<3]) [0..<3]
            in (st\<lparr>hintsRemaining := hintsRemaining st - 1\<rparr>, [Hint correctNumber inRow inCol inBox]))"

definition togglePause :: "state \<Rightarrow> state \<times> toast list" where
  "togglePause st =
     (if \<not> gameStarted st \<or> gameCompleted st then (st, [])
      else (st\<lparr>isPaused := \<not> isPaused st\<rparr>, [if isPaused st then GameResumed else GamePaused]))"

text \<open>The interval of the timer effect exists while a game runs; its updater adds one.\<close>

definition tick :: "state \<Rightarrow> state" where
  "tick st = (if gameStarted st \<and> \<not> gameCompleted st \<and> \<not> isPaused st
              then st\<lparr>timer := timer st + 1\<rparr> else st)"

text \<open>
  Typing the player's name; the effect on \<open>[playerName]\<close> then loads that player's records
  from the store into \<open>bestTimes\<close>.
\<close>

definition setPlayerName :: "state \<Rightarrow> string \<Rightarrow> state" where
  "setPlayerName st name =
     (let st1 = st\<lparr>playerName := name\<rparr>
      in if name \<noteq> '''' then st1\<lparr>bestTimes := (\<lambda>d. bestTimesStore st (name, d))\<rparr> else st1)"

text \<open>
  \<open>createProfile\<close>: \<open>playerName.trim()\<close> must be non-empty, that is, the name must hold a
  character that is not white space (of the characters of the model's strings: space,
  tab, line feed, vertical tab, form feed, carriage return).
\<close>

definition whiteSpace :: "char \<Rightarrow> bool" where
  "whiteSpace ch = (ch \<in> set [CHR '' '', CHR 0x09, CHR 0x0A, CHR 0x0B, CHR 0x0C, CHR 0x0D])"

definition createProfile :: "state \<Rightarrow> state" where
  "createProfile st =
     (if list_ex (\<lambda>ch. \<not> whiteSpace ch) (playerName st) then st\<lparr>profileCreated := True\<rparr> else st)"

subsection \<open>Events and runs\<close>

text \<open>
  One event is one user action (or one timer tick): its handler runs to completion and
  the component is rendered. The cells of a click are those the board renders, \<open>0..8\<close> in
  both coordinates; the number pad sends \<open>0..9\<close>; the difficulty buttons are \<open>easy\<close>,
  \<open>medium\<close> and \<open>hard\<close>.
\<close>

datatype event =
    NewGame SudokuBoard SudokuBoard
  | CellClick nat nat
  | PadInput nat
  | KeyDown key
  | HintButton
  | PauseButton
  | Tick
  | SetDifficulty string
  | SetPlayerName string
  | CreateProfile

definition wf_event :: "event \<Rightarrow> bool" where
  "wf_event e =
     (case e of
        NewGame s p \<Rightarrow> wf_grid s \<and> wf_grid p
      | CellClick r c \<Rightarrow> r < 9 \<and> c < 9
      | PadInput n \<Rightarrow> n \<le> 9
      | SetDifficulty d \<Rightarrow> d = ''easy'' \<or> d = ''medium'' \<or> d = ''hard''
      | _ \<Rightarrow> True)"

text \<open>
  Whether the event can reach its handler. Before a profile is created the page shows the
  name field and its button only; afterwards it shows the controls, the board and the
  number pad, for good. A digit button of the pad is disabled while
  \<open>numberUsage[n] <= 0\<close>; the hint and pause buttons are shown once a game has started, the
  hint button disabled while \<open>hintsRemaining <= 0\<close>. The key listener is on \<open>window\<close>.
\<close>

definition delivered :: "state \<Rightarrow> event \<Rightarrow> bool" where
  "delivered st e =
     (case e of
        NewGame s p \<Rightarrow> profileCreated st
      | CellClick r c \<Rightarrow> profileCreated st
      | PadInput n \<Rightarrow> profileCreated st \<and> (n = 0 \<or> 0 < numberUsage st n)
      | KeyDown k \<Rightarrow> True
      | HintButton \<Rightarrow> profileCreated st \<and> gameStarted st \<and> 0 < hintsRemaining st
      | PauseButton \<Rightarrow> profileCreated st \<and> gameStarted st
      | Tick \<Rightarrow> True
      | SetDifficulty d \<Rightarrow> profileCreated st
      | SetPlayerName n \<Rightarrow> \<not> profileCreated st
      | CreateProfile \<Rightarrow> \<not> profileCreated st)"

definition handle :: "state \<Rightarrow> event \<Rightarrow> state \<times> toast list" where
  "handle st e =
     (case e of
        NewGame s p \<Rightarrow> (generateSudoku st s p, [])
      | CellClick r c \<Rightarrow> (handleCellClick st r c, [])
      | PadInput n \<Rightarrow> handleNumberInput st n
      | KeyDown k \<Rightarrow> handleKeyDown st k
      | HintButton \<Rightarrow> provideHint st
      | PauseButton \<Rightarrow> togglePause st
      | Tick \<Rightarrow> (tick st, [])
      | SetDifficulty d \<Rightarrow> (st\<lparr>difficulty := d\<rparr>, [])
      | SetPlayerName n \<Rightarrow> (setPlayerName st n, [])
      | CreateProfile \<Rightarrow> (createProfile st, []))"

definition step :: "state \<Rightarrow> event \<Rightarrow> state \<times> toast list" where
  "step st e =
     (if delivered st e
      then (let (st1, ts) = handle st e in (render st st1, ts))
      else (st, []))"

fun run :: "state \<Rightarrow> event list \<Rightarrow> state \<times> toast list" where
  "run st [] = (st, [])"
| "run st (e # es) = (let (st1, ts1) = step st e; (st2, ts2) = run st1 es in (st2, ts1 @ ts2))"

inductive reachable :: "state \<Rightarrow> bool" where
  reach_init: "reachable initialState"
| reach_step: "reachable st \<Longrightarrow> wf_event e \<Longrightarrow> reachable (fst (step st e))"

subsection \<open>Auxiliary notions for the session properties\<close>

definition shape9 :: "SudokuBoard \<Rightarrow> bool" where
  "shape9 b = (length b = 9 \<and> (\<forall>row \<in> set b. length row = 9))"

definition budgetOk :: "state \<Rightarrow> bool" where
  "budgetOk st = (\<forall>d. 1 \<le> d \<and> d \<le> 9 \<longrightarrow> numberUsage st d + int (countOnBoard (board st) d) = 9)"

definition selOk :: "'a vars_scheme \<Rightarrow> bool" where
  "selOk v = (case selectedCell v of None \<Rightarrow> True | Some (r, c) \<Rightarrow> r < 9 \<and> c < 9)"

text \<open>
  What holds of the component between two events: every allocation of rows is a 9x9
  grid, every selection lies on the board, the budget equation holds, the
  \<open>handleNumberInput\<close> of the current render is up to date in its dependencies and reads
  the current rows and selection, and so is the listener in its own dependencies.
\<close>

definition sessionInv :: "state \<Rightarrow> bool" where
  "sessionInv st =
     ((\<forall>n. shape9 (rowStore st n)) \<and> selOk st \<and> selOk (cells (listenerRender st)) \<and> selOk (cells (listenerInput st))
      \<and> budgetOk st
      \<and> inputDeps (cells (inputClosure st)) = inputDeps st
      \<and> boardRows (cells (inputClosure st)) = boardRows st
      \<and> selectedCell (cells (inputClosure st)) = selectedCell st
      \<and> listenerDeps (cells (listenerRender st)) = listenerDeps st)"

subsection \<open>Concrete sessions\<close>

definition exampleSolution :: SudokuBoard where
  "exampleSolution =
    [[1,2,3,4,5,6,7,8,9],
     [4,5,6,7,8,9,1,2,3],
     [7,8,9,1,2,3,4,5,6],
     [2,3,4,5,6,7,8,9,1],
     [5,6,7,8,9,1,2,3,4],
     [8,9,1,2,3,4,5,6,7],
     [3,4,5,6,7,8,9,1,2],
     [6,7,8,9,1,2,3,4,5],
     [9,1,2,3,4,5,6,7,8]]"

text \<open>The solved grid with the cell \<open>(0,0)\<close> empty.\<close>

definition examplePuzzle :: SudokuBoard where
  "examplePuzzle = setCell exampleSolution 0 0 0"

text \<open>The same with the cell \<open>(8,8)\<close> empty too.\<close>

definition twoCellPuzzle :: SudokuBoard where
  "twoCellPuzzle = setCell examplePuzzle 8 8 0"

text \<open>The player has typed a name and created the profile; no game has been started.\<close>

definition profiled :: state where
  "profiled = fst (run initialState [SetPlayerName ''ann'', CreateProfile])"

text \<open>A game on \<open>examplePuzzle\<close>, the empty cell selected by a click.\<close>

definition exampleGame :: state where
  "exampleGame = fst (run profiled [NewGame exampleSolution examplePuzzle, CellClick 0 0])"

text \<open>A game on \<open>twoCellPuzzle\<close>, the cell \<open>(0,0)\<close> selected by a click.\<close>

definition twoCellGame :: state where
  "twoCellGame = fst (run profiled [NewGame exampleSolution twoCellPuzzle, CellClick 0 0])"

text \<open>
  What a handler leaves behind, before the render: it does not touch the closures; the
  rows, the board and the budget change only with a new \<open>board\<close> array, and the selection
  only with a new selection object; and after a new \<open>board\<close> array either a game is on
  (the recount effect will run) or the budget equation holds already.
\<close>

definition handled :: "state \<Rightarrow> state \<Rightarrow> bool" where
  "handled st st1 =
     ((\<forall>n. shape9 (rowStore st1 n)) \<and> selOk st1
      \<and> inputClosure st1 = inputClosure st \<and> listenerRender st1 = listenerRender st
      \<and> listenerInput st1 = listenerInput st
      \<and> (boardId st1 = boardId st \<longrightarrow>
            rowStore st1 = rowStore st \<and> boardRows st1 = boardRows st \<and> numberUsage st1 = numberUsage st)
      \<and> (selectedId st1 = selectedId st \<longrightarrow> selectedCell st1 = selectedCell st)
      \<and> (boardId st1 \<noteq> boardId st \<longrightarrow> gameStarted st1 \<or> budgetOk st1))"

text \<open>The game on \<open>examplePuzzle\<close> three seconds after the click.\<close>

definition almostDone :: state where
  "almostDone = fst (run exampleGame [Tick, Tick, Tick])"

text \<open>
  A first game on \<open>examplePuzzle\<close>, won two seconds after its start, and a second game on
  the same puzzle, seven seconds after its start (the cell \<open>(0,0)\<close> is still selected).
\<close>

definition firstGameWon :: state where
  "firstGameWon = fst (run profiled [NewGame exampleSolution examplePuzzle, Tick, Tick, CellClick 0 0, PadInput 1])"

definition secondGame :: state where
  "secondGame = fst (run firstGameWon
     [NewGame exampleSolution examplePuzzle, Tick, Tick, Tick, Tick, Tick, Tick, Tick])"

subsection \<open>Concrete runs of the carver\<close>

text \<open>The grid with the cells of a list emptied, and with the cells of a list rewritten.\<close>

definition erase :: "(nat \<times> nat) list \<Rightarrow> SudokuBoard \<Rightarrow> SudokuBoard" where
  "erase cs b = fold (\<lambda>(r, c) p. setCell p r c 0) cs b"

definition rewrite :: "(nat \<times> nat \<times> nat) list \<Rightarrow> SudokuBoard \<Rightarrow> SudokuBoard" where
  "rewrite ws b = fold (\<lambda>(r, c, v) p. setCell p r c v) ws b"

text \<open>Every sequence of draws of cells is \<open>map cellOf ns\<close> for some list of numbers.\<close>

definition cellOf :: "nat \<Rightarrow> nat \<times> nat" where
  "cellOf n = (n div 9 mod 9, n mod 9)"

text \<open>
  \<open>s\<close> rewritten by \<open>ws\<close> is a second completion of \<open>p\<close> with the cell \<open>(r, c)\<close> emptied.
\<close>

definition secondSolution :: "SudokuBoard \<Rightarrow> SudokuBoard \<Rightarrow> (nat \<times> nat) \<times> (nat \<times> nat \<times> nat) list \<Rightarrow> bool" where
  "secondSolution p s alt =
     (case alt of ((r, c), ws) \<Rightarrow>
        solved (rewrite ws s) \<and> extends (setCell p r c 0) (rewrite ws s) \<and> rewrite ws s \<noteq> s)"

text \<open>
  Draws that carve 40 cells out of \<open>exampleSolution\<close>, and the puzzle they leave. The
  eleventh draw falls on a cell that is empty already, and the draw \<open>(6, 3)\<close> is rejected
  (the grid without that cell has two completions).
\<close>

definition easyPicks :: "(nat \<times> nat) list" where
  "easyPicks =
    [(0, 1), (2, 4), (7, 4), (5, 6), (8, 4), (3, 8), (2, 0), (6, 6), (4, 8), (0, 3), (0, 1),
     (0, 7), (0, 2), (6, 0), (7, 3), (5, 2), (8, 1), (0, 6), (0, 4), (3, 7), (7, 0), (4, 2),
     (3, 0), (8, 6), (2, 3), (1, 7), (7, 2), (1, 8), (7, 5), (6, 2), (7, 6), (5, 0), (8, 8),
     (6, 3), (6, 5), (3, 4), (0, 5), (4, 3), (6, 7), (1, 6), (7, 1), (1, 4)]"

definition easyPuzzle :: SudokuBoard where
  "easyPuzzle =
    [[1,0,0,0,0,0,0,0,9],
     [4,5,6,7,0,9,0,0,0],
     [0,8,9,0,0,3,4,5,6],
     [0,3,4,5,0,7,8,0,0],
     [5,6,0,0,9,1,2,3,0],
     [0,9,0,2,3,4,0,6,7],
     [0,4,0,6,7,0,0,0,2],
     [0,0,0,0,0,0,0,4,5],
     [9,0,2,3,0,5,0,7,0]]"

text \<open>
  A puzzle with 25 givens and one completion, \<open>exampleSolution\<close>, from which no given can
  be removed; the draws that carve it out of \<open>exampleSolution\<close>; and for each given a
  second completion of the puzzle without it (as the cells to rewrite in
  \<open>exampleSolution\<close>).
\<close>

definition stuckPuzzle :: SudokuBoard where
  "stuckPuzzle =
    [[0,0,0,0,5,0,7,8,9],
     [4,0,6,0,8,0,0,0,0],
     [0,0,0,0,0,3,0,0,0],
     [2,3,0,0,0,7,0,0,0],
     [5,0,0,0,9,0,0,0,0],
     [8,0,0,0,0,4,5,0,7],
     [3,4,5,0,0,0,9,0,0],
     [0,7,0,0,0,0,0,0,0],
     [0,0,0,3,4,0,0,0,8]]"

definition stuckPicks :: "(nat \<times> nat) list" where
  "stuckPicks =
    [(4, 2), (2, 8), (2, 4), (7, 8), (3, 2), (0, 5), (7, 0), (6, 5), (3, 4), (7, 5), (4, 1), (7, 2), (3, 8), (2, 3), (0, 1), (1, 1), (8, 2), (4, 6), (3, 7), (5, 1), (7, 3), (6, 7), (1, 6), (8, 5), (5, 7), (1, 8), (5, 3), (1, 3), (6, 8), (2, 7), (8, 7), (4, 7), (7, 7), (5, 4), (2, 0), (5, 2), (2, 1), (4, 5), (0, 0), (4, 3), (3, 3), (2, 6), (8, 6), (4, 8), (8, 1), (1, 7), (2, 2), (7, 4), (7, 6), (0, 3), (6, 3), (1, 5), (6, 4), (8, 0), (0, 2), (3, 6)]"

definition otherSolutions :: "((nat \<times> nat) \<times> (nat \<times> nat \<times> nat) list) list" where
  "otherSolutions =
    [((0, 4), [(0, 1, 5), (0, 4, 2), (1, 1, 2), (1, 7, 5), (2, 4, 5), (2, 7, 2)]),
     ((0, 6), [(0, 3, 7), (0, 6, 4), (1, 3, 1), (1, 6, 7), (2, 3, 4), (2, 6, 1)]),
     ((0, 7), [(0, 1, 8), (0, 7, 2), (1, 1, 2), (1, 7, 5), (2, 1, 5), (2, 7, 8)]),
     ((0, 8), [(0, 3, 9), (0, 8, 4), (1, 5, 2), (1, 7, 3), (1, 8, 9), (2, 3, 4), (2, 4, 1), (2, 6, 2), (4, 6, 4), (4, 7, 2), (4, 8, 3), (7, 3, 1), (7, 4, 2), (7, 5, 9)]),
     ((1, 0), [(1, 0, 7), (1, 3, 1), (1, 6, 4), (2, 0, 4), (2, 3, 7), (2, 6, 1)]),
     ((1, 2), [(1, 2, 9), (1, 5, 2), (1, 7, 3), (1, 8, 6), (2, 2, 6), (2, 3, 9), (2, 4, 1), (2, 6, 2), (2, 8, 4), (4, 6, 4), (4, 7, 2), (4, 8, 3), (7, 3, 1), (7, 4, 2), (7, 5, 9)]),
     ((1, 4), [(1, 1, 8), (1, 4, 2), (1, 7, 5), (2, 1, 5), (2, 4, 8), (2, 7, 2)]),
     ((2, 5), [(2, 4, 3), (2, 5, 2), (2, 7, 6), (2, 8, 5), (3, 4, 1), (3, 8, 6), (4, 5, 3), (4, 7, 4), (4, 8, 1), (5, 4, 6), (5, 7, 3), (7, 4, 2), (7, 5, 1), (7, 7, 5), (7, 8, 4)]),
     ((3, 0), [(3, 0, 6), (3, 4, 1), (3, 8, 2), (4, 1, 1), (4, 5, 2), (4, 6, 6), (5, 2, 2), (5, 3, 6), (5, 7, 1), (6, 3, 2), (6, 7, 6), (6, 8, 1), (7, 0, 2), (7, 4, 6), (7, 5, 1), (8, 1, 6), (8, 2, 1), (8, 6, 2)]),
     ((3, 1), [(3, 1, 6), (3, 4, 3), (4, 1, 3), (4, 7, 6), (5, 4, 6), (5, 7, 3)]),
     ((3, 5), [(3, 2, 7), (3, 5, 1), (3, 8, 4), (4, 2, 4), (4, 5, 7), (4, 8, 1)]),
     ((4, 0), [(1, 1, 9), (1, 5, 1), (1, 6, 2), (1, 7, 5), (2, 0, 5), (2, 2, 7), (2, 3, 9), (2, 6, 1), (2, 7, 6), (2, 8, 4), (4, 0, 7), (4, 1, 5), (4, 2, 1), (4, 5, 2), (4, 6, 4), (4, 8, 6), (5, 1, 6), (5, 2, 9), (5, 3, 1), (5, 7, 2), (7, 3, 2), (7, 5, 9)]),
     ((4, 4), [(4, 1, 9), (4, 4, 3), (4, 7, 6), (5, 1, 6), (5, 4, 9), (5, 7, 3)]),
     ((5, 0), [(2, 6, 6), (2, 8, 4), (3, 4, 1), (3, 8, 6), (4, 1, 1), (4, 3, 6), (4, 5, 8), (4, 6, 4), (4, 8, 2), (5, 0, 6), (5, 2, 8), (5, 7, 1), (6, 3, 8), (6, 5, 2), (6, 7, 6), (6, 8, 1), (7, 0, 8), (7, 2, 2), (7, 4, 6), (7, 5, 1), (8, 1, 6), (8, 2, 1), (8, 6, 2)]),
     ((5, 5), [(3, 2, 1), (3, 8, 4), (4, 5, 4), (4, 8, 1), (5, 2, 4), (5, 5, 1)]),
     ((5, 6), [(3, 3, 8), (3, 6, 5), (4, 3, 2), (4, 6, 8), (5, 3, 5), (5, 6, 2)]),
     ((5, 8), [(3, 2, 1), (3, 8, 4), (4, 2, 4), (4, 8, 7), (5, 2, 7), (5, 8, 1)]),
     ((6, 0), [(1, 7, 3), (1, 8, 2), (2, 7, 6), (2, 8, 5), (3, 4, 1), (3, 8, 6), (4, 5, 2), (4, 6, 3), (4, 7, 4), (4, 8, 1), (5, 3, 6), (5, 7, 2), (6, 0, 6), (6, 3, 2), (6, 8, 3), (7, 0, 3), (7, 4, 6), (7, 5, 1), (7, 6, 2), (7, 7, 5), (7, 8, 4)]),
     ((6, 1), [(2, 1, 9), (2, 2, 8), (3, 2, 9), (3, 7, 4), (4, 1, 4), (4, 6, 3), (4, 7, 6), (4, 8, 2), (5, 1, 6), (5, 7, 9), (6, 1, 8), (6, 5, 2), (6, 8, 4), (7, 2, 4), (7, 5, 8), (7, 6, 2), (7, 7, 3)]),
     ((6, 2), [(6, 2, 8), (6, 5, 5), (7, 2, 2), (7, 5, 8), (8, 2, 5), (8, 5, 2)]),
     ((6, 6), [(6, 3, 9), (6, 6, 6), (7, 0, 9), (7, 3, 6), (8, 0, 6), (8, 6, 9)]),
     ((7, 1), [(6, 4, 1), (6, 7, 7), (7, 1, 1), (7, 4, 7), (8, 1, 7), (8, 7, 1)]),
     ((8, 3), [(7, 0, 9), (7, 3, 3), (7, 6, 6), (8, 0, 6), (8, 3, 9), (8, 6, 3)]),
     ((8, 4), [(6, 4, 1), (6, 7, 7), (7, 4, 4), (7, 7, 1), (8, 4, 7), (8, 7, 4)]),
     ((8, 8), [(6, 5, 2), (6, 8, 8), (7, 2, 2), (7, 5, 8), (8, 2, 8), (8, 8, 2)])]"

section \<open>Properties of the play session\<close>

lemma wf_grid_shape9: "wf_grid b \<Longrightarrow> shape9 b"
  by (auto simp: wf_grid_def shape9_def list_all_iff)

lemma shape9_setCell: "shape9 b \<Longrightarrow> shape9 (setCell b r c v)"
proof (cases "r < length b")
  case True
  assume "shape9 b"
  with True show ?thesis
    unfolding shape9_def setCell_def
    by (auto dest!: set_update_subset_insert[THEN subsetD])
next
  case False
  assume "shape9 b"
  with False show ?thesis by (simp add: setCell_def list_update_beyond not_less)
qed

lemma count_list_update_nat:
  "i < length xs \<Longrightarrow>
   count_list (xs[i := v]) d + (if xs ! i = d then 1 else 0) =
     count_list xs d + (if v = d then 1 else 0)"
proof (induction xs arbitrary: i)
  case Nil then show ?case by simp
next
  case (Cons x xs)
  show ?case
  proof (cases i)
    case 0 then show ?thesis by simp
  next
    case (Suc j)
    with Cons.prems have "j < length xs" by simp
    from Cons.IH[OF this] Suc show ?thesis by (auto split: if_splits)
  qed
qed

lemma count_list_update:
  "i < length xs \<Longrightarrow>
   int (count_list (xs[i := v]) d) =
     int (count_list xs d) - (if xs ! i = d then 1 else 0) + (if v = d then 1 else 0)"
  using count_list_update_nat[of i xs v d] by (simp split: if_splits)

lemma count_concat_update:
  "r < length b \<Longrightarrow>
   int (count_list (concat (b[r := row'])) d) =
     int (count_list (concat b) d) - int (count_list (b ! r) d) + int (count_list row' d)"
proof (induction b arbitrary: r)
  case Nil then show ?case by simp
next
  case (Cons x xs)
  then show ?case by (cases r) auto
qed

lemma countOnBoard_setCell:
  assumes "r < length b" "c < length (b ! r)"
  shows "int (countOnBoard (setCell b r c v) d) =
     int (countOnBoard b d) - (if b ! r ! c = d then 1 else 0) + (if v = d then 1 else 0)"
  using assms by (simp add: countOnBoard_def setCell_def count_concat_update count_list_update)

lemma capture_fields [simp]:
  "boardId (cells (capture st)) = boardId st" "boardRows (cells (capture st)) = boardRows st"
  "selectedCell (cells (capture st)) = selectedCell st" "selectedId (cells (capture st)) = selectedId st"
  "gameStarted (cells (capture st)) = gameStarted st" "gameCompleted (cells (capture st)) = gameCompleted st"
  "isPaused (cells (capture st)) = isPaused st" "usageId (cells (capture st)) = usageId st"
  "wrongAttempts (cells (capture st)) = wrongAttempts st"
  by (simp_all add: capture_def)

lemma capture_deps [simp]:
  "inputDeps (cells (capture st)) = inputDeps st" "listenerDeps (cells (capture st)) = listenerDeps st"
  "selOk (cells (capture st)) = selOk st"
  by (simp_all add: inputDeps_def listenerDeps_def selOk_def)

lemma usageEffect_budget: "gameStarted st \<Longrightarrow> budgetOk (usageEffect st)"
  by (simp add: usageEffect_def budgetOk_def board_def recount_def)

lemma usageEffect_fields:
  "rowStore (usageEffect st) = rowStore st" "boardRows (usageEffect st) = boardRows st"
  "boardId (usageEffect st) = boardId st"
  "selectedCell (usageEffect st) = selectedCell st" "selectedId (usageEffect st) = selectedId st"
  "gameStarted (usageEffect st) = gameStarted st" "gameCompleted (usageEffect st) = gameCompleted st"
  "isPaused (usageEffect st) = isPaused st"
  "inputClosure (usageEffect st) = inputClosure st" "listenerRender (usageEffect st) = listenerRender st"
  "listenerInput (usageEffect st) = listenerInput st"
  by (simp_all add: usageEffect_def)

lemma usageEffect_budget_keep: "budgetOk st \<Longrightarrow> budgetOk (usageEffect st)"
  by (cases "gameStarted st") (simp_all add: usageEffect_budget, simp add: usageEffect_def)

lemma rebuild_fields:
  "rowStore (rebuild st) = rowStore st" "boardRows (rebuild st) = boardRows st"
  "boardId (rebuild st) = boardId st" "numberUsage (rebuild st) = numberUsage st"
  "selectedCell (rebuild st) = selectedCell st" "selectedId (rebuild st) = selectedId st"
  "gameStarted (rebuild st) = gameStarted st" "gameCompleted (rebuild st) = gameCompleted st"
  "isPaused (rebuild st) = isPaused st"
  "listenerRender (rebuild st) = listenerRender st" "listenerInput (rebuild st) = listenerInput st"
  "inputDeps (rebuild st) = inputDeps st" "listenerDeps (rebuild st) = listenerDeps st"
  "board (rebuild st) = board st" "selOk (rebuild st) = selOk st" "budgetOk (rebuild st) = budgetOk st"
  by (simp_all add: rebuild_def inputDeps_def listenerDeps_def board_def selOk_def budgetOk_def)

lemma rebuild_cases:
  "(inputClosure (rebuild st) = inputClosure st \<and> inputDeps (cells (inputClosure st)) = inputDeps st)
   \<or> inputClosure (rebuild st) = capture st"
  by (simp add: rebuild_def)

lemma rebuild_deps: "inputDeps (cells (inputClosure (rebuild st))) = inputDeps st"
  by (simp add: rebuild_def)

lemma render_inv:
  assumes inv: "sessionInv st" and h: "handled st st1"
  shows "sessionInv (render st st1)"
proof -
  define a where "a = rebuild st1"
  define b where "b = (if listenerDeps a = listenerDeps st then a
                 else a\<lparr>listenerRender := capture a, listenerInput := inputClosure a\<rparr>)"
  have r: "render st st1 = (if boardId b = boardId st then b else rebuild (usageEffect b))"
    by (simp add: render_def Let_def a_def b_def)
  from inv have i: "\<forall>n. shape9 (rowStore st n)" "selOk st" "selOk (cells (listenerRender st))"
    "selOk (cells (listenerInput st))" "budgetOk st" "inputDeps (cells (inputClosure st)) = inputDeps st"
    "boardRows (cells (inputClosure st)) = boardRows st"
    "selectedCell (cells (inputClosure st)) = selectedCell st"
    "listenerDeps (cells (listenerRender st)) = listenerDeps st"
    by (simp_all add: sessionInv_def)
  from h have g: "\<forall>n. shape9 (rowStore st1 n)" "selOk st1" "inputClosure st1 = inputClosure st"
    "listenerRender st1 = listenerRender st" "listenerInput st1 = listenerInput st"
    "boardId st1 = boardId st \<longrightarrow>
       rowStore st1 = rowStore st \<and> boardRows st1 = boardRows st \<and> numberUsage st1 = numberUsage st"
    "selectedId st1 = selectedId st \<longrightarrow> selectedCell st1 = selectedCell st"
    "boardId st1 \<noteq> boardId st \<longrightarrow> gameStarted st1 \<or> budgetOk st1"
    by (simp_all add: handled_def)
  have a_deps: "inputDeps (cells (inputClosure a)) = inputDeps st1"
    by (simp add: a_def rebuild_deps)
  have a_rows: "boardRows (cells (inputClosure a)) = boardRows st1
      \<and> selectedCell (cells (inputClosure a)) = selectedCell st1"
  proof -
    from rebuild_cases[of st1]
    consider (kept) "inputClosure a = inputClosure st1" "inputDeps (cells (inputClosure st1)) = inputDeps st1"
      | (new) "inputClosure a = capture st1"
      by (auto simp: a_def)
    then show ?thesis
    proof cases
      case kept
      from kept(2) g(3) i(6) have "inputDeps st1 = inputDeps st" by simp
      then have "boardId st1 = boardId st" "selectedId st1 = selectedId st"
        by (simp_all add: inputDeps_def)
      with g(6,7) have "boardRows st1 = boardRows st" "selectedCell st1 = selectedCell st" by simp_all
      with kept(1) g(3) i(7,8) show ?thesis by simp
    next
      case new
      then show ?thesis by simp
    qed
  qed
  have a_f: "rowStore a = rowStore st1" "boardRows a = boardRows st1" "boardId a = boardId st1"
    "numberUsage a = numberUsage st1" "selectedCell a = selectedCell st1" "gameStarted a = gameStarted st1"
    "listenerRender a = listenerRender st1" "listenerInput a = listenerInput st1"
    "inputDeps a = inputDeps st1" "listenerDeps a = listenerDeps st1" "selOk a = selOk st1"
    "budgetOk a = budgetOk st1" "board a = board st1"
    by (simp_all add: a_def rebuild_fields)
  have b_f: "rowStore b = rowStore st1" "boardRows b = boardRows st1" "boardId b = boardId st1"
    "numberUsage b = numberUsage st1" "selectedCell b = selectedCell st1" "gameStarted b = gameStarted st1"
    "inputClosure b = inputClosure a" "inputDeps b = inputDeps st1" "listenerDeps b = listenerDeps st1"
    using a_f by (simp_all add: b_def inputDeps_def listenerDeps_def)
  have b_sel: "selOk b" using g(2) b_f(5) by (simp add: selOk_def)
  have b_bud: "budgetOk b = budgetOk st1" using b_f by (simp add: budgetOk_def board_def)
  have b_lis: "listenerDeps (cells (listenerRender b)) = listenerDeps b
      \<and> selOk (cells (listenerRender b)) \<and> selOk (cells (listenerInput b))"
  proof (cases "listenerDeps a = listenerDeps st")
    case True
    then have "listenerRender b = listenerRender st" "listenerInput b = listenerInput st"
      using a_f(7,8) g(4,5) by (simp_all add: b_def)
    with True i(3,4,9) a_f(10) b_f(9) show ?thesis by simp
  next
    case False
    then have l: "listenerRender b = capture a" "listenerInput b = inputClosure a"
      by (simp_all add: b_def)
    have "selOk (cells (inputClosure a))" using a_rows g(2) by (simp add: selOk_def)
    with l a_f(10,11) b_f(9) g(2) show ?thesis by simp
  qed
  show ?thesis
  proof (cases "boardId b = boardId st")
    case True
    then have same: "boardId st1 = boardId st" using b_f(3) by simp
    with g(6) have e: "rowStore st1 = rowStore st" "boardRows st1 = boardRows st"
      "numberUsage st1 = numberUsage st" by simp_all
    have "budgetOk st1" using i(5) e by (simp add: budgetOk_def board_def)
    with True r b_f b_sel b_bud b_lis a_deps a_rows g(1) show ?thesis
      by (simp add: sessionInv_def)
  next
    case False
    then have diff: "boardId st1 \<noteq> boardId st" using b_f(3) by simp
    define c where "c = usageEffect b"
    have c_f: "rowStore c = rowStore b" "boardRows c = boardRows b" "selectedCell c = selectedCell b"
      "listenerRender c = listenerRender b" "listenerInput c = listenerInput b"
      "listenerDeps c = listenerDeps b"
      by (simp_all add: c_def usageEffect_fields listenerDeps_def)
    have c_bud: "budgetOk c"
    proof (cases "gameStarted b")
      case True
      then show ?thesis by (simp add: c_def usageEffect_budget)
    next
      case False
      with g(8) diff b_f(6) have "budgetOk st1" by simp
      then show ?thesis by (simp add: c_def usageEffect_budget_keep b_bud)
    qed
    have fin: "render st st1 = rebuild c" using False r by (simp add: c_def)
    have c_rows: "boardRows (cells (inputClosure (rebuild c))) = boardRows c
        \<and> selectedCell (cells (inputClosure (rebuild c))) = selectedCell c"
    proof -
      from rebuild_cases[of c]
      consider (kept) "inputClosure (rebuild c) = inputClosure c" | (new) "inputClosure (rebuild c) = capture c"
        by auto
      then show ?thesis
      proof cases
        case kept
        have "inputClosure c = inputClosure a" by (simp add: c_def usageEffect_fields b_f)
        with kept a_rows c_f b_f show ?thesis by simp
      next
        case new
        then show ?thesis by simp
      qed
    qed
    have c_sel: "selOk c" using b_sel c_f(3) by (simp add: selOk_def)
    show ?thesis
      unfolding fin sessionInv_def
      using c_bud c_rows c_sel b_lis c_f g(1) b_f(1)
      by (simp add: rebuild_fields rebuild_deps)
  qed
qed


lemma checkForSmartMove_fields:
  "rowStore (fst (checkForSmartMove cl st b r c n)) = rowStore st"
  "boardRows (fst (checkForSmartMove cl st b r c n)) = boardRows st"
  "boardId (fst (checkForSmartMove cl st b r c n)) = boardId st"
  "numberUsage (fst (checkForSmartMove cl st b r c n)) = numberUsage st"
  "selectedCell (fst (checkForSmartMove cl st b r c n)) = selectedCell st"
  "selectedId (fst (checkForSmartMove cl st b r c n)) = selectedId st"
  "gameStarted (fst (checkForSmartMove cl st b r c n)) = gameStarted st"
  "inputClosure (fst (checkForSmartMove cl st b r c n)) = inputClosure st"
  "listenerRender (fst (checkForSmartMove cl st b r c n)) = listenerRender st"
  "listenerInput (fst (checkForSmartMove cl st b r c n)) = listenerInput st"
  by (simp_all add: checkForSmartMove_def Let_def)

lemma saveBestTime_fields:
  "rowStore (saveBestTime cl st) = rowStore st"
  "boardRows (saveBestTime cl st) = boardRows st"
  "boardId (saveBestTime cl st) = boardId st"
  "numberUsage (saveBestTime cl st) = numberUsage st"
  "selectedCell (saveBestTime cl st) = selectedCell st"
  "selectedId (saveBestTime cl st) = selectedId st"
  "gameStarted (saveBestTime cl st) = gameStarted st"
  "inputClosure (saveBestTime cl st) = inputClosure st"
  "listenerRender (saveBestTime cl st) = listenerRender st"
  "listenerInput (saveBestTime cl st) = listenerInput st"
  by (simp_all add: saveBestTime_def split: option.splits)

lemma commitMove_fields:
  "rowStore (fst (commitMove cl st r c num)) =
     (rowStore st)(boardRows cl := setCell (rowStore st (boardRows cl)) r c num)"
  "boardRows (fst (commitMove cl st r c num)) = boardRows cl"
  "boardId (fst (commitMove cl st r c num)) = boardId st + 1"
  "numberUsage (fst (commitMove cl st r c num)) =
     adjustUsage (numberUsage st) (rowStore st (boardRows cl) ! r ! c) num"
  "selectedCell (fst (commitMove cl st r c num)) = selectedCell st"
  "selectedId (fst (commitMove cl st r c num)) = selectedId st"
  "gameStarted (fst (commitMove cl st r c num)) = gameStarted st"
  "inputClosure (fst (commitMove cl st r c num)) = inputClosure st"
  "listenerRender (fst (commitMove cl st r c num)) = listenerRender st"
  "listenerInput (fst (commitMove cl st r c num)) = listenerInput st"
  by (simp_all add: commitMove_def Let_def checkForSmartMove_fields saveBestTime_fields)

lemma commitMove_board:
  "board (fst (commitMove cl st r c num)) = setCell (rowStore st (boardRows cl)) r c num"
  by (simp add: board_def commitMove_fields)

lemma commitMove_budget:
  assumes "budgetOk st" "shape9 (board st)" "r < 9" "c < 9" "boardRows cl = boardRows st"
  shows "budgetOk (fst (commitMove cl st r c num))"
proof -
  from assms(2,3,4) have len: "r < length (board st)" "c < length (board st ! r)"
    by (auto simp: shape9_def)
  have rs: "rowStore st (boardRows cl) = board st" using assms(5) by (simp add: board_def)
  show ?thesis
    unfolding budgetOk_def
  proof (intro allI impI)
    fix d :: nat assume d: "1 \<le> d \<and> d \<le> 9"
    have eq: "numberUsage st d + int (countOnBoard (board st) d) = 9"
      using assms(1) d by (simp add: budgetOk_def)
    have u: "numberUsage (fst (commitMove cl st r c num)) d =
        numberUsage st d + (if board st ! r ! c = d then 1 else 0) - (if num = d then 1 else 0)"
      using d by (simp add: commitMove_fields rs adjustUsage_def Let_def)
    show "numberUsage (fst (commitMove cl st r c num)) d
        + int (countOnBoard (board (fst (commitMove cl st r c num))) d) = 9"
      unfolding u commitMove_board rs countOnBoard_setCell[OF len] using eq by simp
  qed
qed

text \<open>What \<open>handleNumberInput\<close> does is either nothing to the board, or \<open>commitMove\<close>.\<close>

lemma runNumberInput_cases:
  "(\<exists>r c. selectedCell cl = Some (r, c) \<and> runNumberInput cl st num = commitMove cl st r c num)
   \<or> (rowStore (fst (runNumberInput cl st num)) = rowStore st
      \<and> boardRows (fst (runNumberInput cl st num)) = boardRows st
      \<and> boardId (fst (runNumberInput cl st num)) = boardId st
      \<and> numberUsage (fst (runNumberInput cl st num)) = numberUsage st
      \<and> selectedCell (fst (runNumberInput cl st num)) = selectedCell st
      \<and> selectedId (fst (runNumberInput cl st num)) = selectedId st
      \<and> gameStarted (fst (runNumberInput cl st num)) = gameStarted st
      \<and> inputClosure (fst (runNumberInput cl st num)) = inputClosure st
      \<and> listenerRender (fst (runNumberInput cl st num)) = listenerRender st
      \<and> listenerInput (fst (runNumberInput cl st num)) = listenerInput st)"
proof (cases "selectedCell cl")
  case None
  then show ?thesis by (simp add: runNumberInput_def)
next
  case (Some rc)
  obtain r c where rc: "rc = (r, c)" by (cases rc)
  show ?thesis
  proof (cases "\<not> gameCompleted cl \<and> \<not> isPaused cl")
    case False
    with Some rc show ?thesis by (auto simp add: runNumberInput_def)
  next
    case ok: True
    show ?thesis
    proof (cases "num \<noteq> 0 \<and> num \<noteq> solution cl ! r ! c")
      case True
      with Some rc ok show ?thesis by (simp add: runNumberInput_def Let_def)
    next
      case nw: False
      show ?thesis
      proof (cases "num \<noteq> 0 \<and> numberUsage cl num \<le> 0")
        case True
        with Some rc ok nw show ?thesis by (simp add: runNumberInput_def Let_def)
      next
        case False
        have "runNumberInput cl st num = commitMove cl st r c num"
          unfolding runNumberInput_def using Some rc ok nw False
          by (simp add: if_not_P)
        with Some rc show ?thesis by simp
      qed
    qed
  qed
qed

lemma handled_refl_like:
  assumes "\<forall>n. shape9 (rowStore st n)" "selOk st"
    "rowStore st1 = rowStore st" "boardRows st1 = boardRows st" "boardId st1 = boardId st"
    "numberUsage st1 = numberUsage st" "selectedCell st1 = selectedCell st"
    "inputClosure st1 = inputClosure st" "listenerRender st1 = listenerRender st"
    "listenerInput st1 = listenerInput st"
  shows "handled st st1"
  using assms by (simp add: handled_def selOk_def)

lemma runNumberInput_handled:
  assumes sh: "\<forall>n. shape9 (rowStore st n)" and s: "selOk st" and sc: "selOk cl"
    and gb: "gameStarted st \<or> (budgetOk st \<and> boardRows cl = boardRows st)"
  shows "handled st (fst (runNumberInput cl st num))"
proof -
  from runNumberInput_cases[of cl st num]
  consider (commit) r c where "selectedCell cl = Some (r, c)"
      "runNumberInput cl st num = commitMove cl st r c num"
    | (other) "rowStore (fst (runNumberInput cl st num)) = rowStore st"
      "boardRows (fst (runNumberInput cl st num)) = boardRows st"
      "boardId (fst (runNumberInput cl st num)) = boardId st"
      "numberUsage (fst (runNumberInput cl st num)) = numberUsage st"
      "selectedCell (fst (runNumberInput cl st num)) = selectedCell st"
      "inputClosure (fst (runNumberInput cl st num)) = inputClosure st"
      "listenerRender (fst (runNumberInput cl st num)) = listenerRender st"
      "listenerInput (fst (runNumberInput cl st num)) = listenerInput st"
    by blast
  then show ?thesis
  proof cases
    case other
    with sh s show ?thesis by (intro handled_refl_like) simp_all
  next
    case commit
    from sc commit(1) have rc: "r < 9" "c < 9" by (simp_all add: selOk_def)
    have shape: "\<forall>n. shape9 (rowStore (fst (commitMove cl st r c num)) n)"
      using sh by (simp add: commitMove_fields shape9_setCell)
    have sel: "selOk (fst (commitMove cl st r c num))"
      using s by (simp add: selOk_def commitMove_fields)
    have bud: "gameStarted (fst (commitMove cl st r c num)) \<or> budgetOk (fst (commitMove cl st r c num))"
    proof (cases "gameStarted st")
      case True
      then show ?thesis by (simp add: commitMove_fields)
    next
      case False
      with gb have b: "budgetOk st" "boardRows cl = boardRows st" by simp_all
      have "shape9 (board st)" using sh by (simp add: board_def)
      from commitMove_budget[OF b(1) this rc b(2)] show ?thesis by simp
    qed
    show ?thesis
      unfolding commit(2) handled_def
      using shape sel bud by (simp add: commitMove_fields)
  qed
qed

lemma handleKeyDown_handled:
  assumes inv: "sessionInv st"
  shows "handled st (fst (handleKeyDown st k))"
proof -
  from inv have i: "\<forall>n. shape9 (rowStore st n)" "selOk st" "selOk (cells (listenerRender st))"
    "selOk (cells (listenerInput st))" "listenerDeps (cells (listenerRender st)) = listenerDeps st"
    by (simp_all add: sessionInv_def)
  have same: "handled st st" using i(1,2) by (intro handled_refl_like) simp_all
  show ?thesis
  proof (cases "\<not> gameStarted (cells (listenerRender st)) \<or> gameCompleted (cells (listenerRender st))
         \<or> isPaused (cells (listenerRender st))")
    case True
    then show ?thesis using same by (auto simp: handleKeyDown_def)
  next
    case False
    then have gs: "gameStarted st" using i(5) by (simp add: listenerDeps_def)
    have inp: "\<And>n. handled st (fst (runNumberInput (cells (listenerInput st)) st n))"
      using i(1,2,4) gs by (intro runNumberInput_handled) simp_all
    show ?thesis
    proof (cases "selectedCell (cells (listenerRender st))")
      case None
      with False same show ?thesis by (simp add: handleKeyDown_def)
    next
      case (Some rc)
      obtain r c where rc: "rc = (r, c)" by (cases rc)
      from i(3) Some rc have r: "r < 9" "c < 9" by (simp_all add: selOk_def)
      have mv: "\<And>r' c'. r' < 9 \<Longrightarrow> c' < 9 \<Longrightarrow>
          handled st (st\<lparr>selectedCell := Some (r', c'), selectedId := selectedId st + 1\<rparr>)"
        using i(1) by (simp add: handled_def selOk_def)
      show ?thesis
      proof (cases k)
        case (DigitKey n)
        with False Some rc inp same show ?thesis by (simp add: handleKeyDown_def)
      next
        case Backspace
        with False Some rc inp show ?thesis by (simp add: handleKeyDown_def)
      next
        case Delete
        with False Some rc inp show ?thesis by (simp add: handleKeyDown_def)
      next
        case ArrowUp
        with False Some rc same mv[of "r - 1" c] r show ?thesis by (simp add: handleKeyDown_def)
      next
        case ArrowDown
        with False Some rc same mv[of "r + 1" c] r show ?thesis by (simp add: handleKeyDown_def)
      next
        case ArrowLeft
        with False Some rc same mv[of r "c - 1"] r show ?thesis by (simp add: handleKeyDown_def)
      next
        case ArrowRight
        with False Some rc same mv[of r "c + 1"] r show ?thesis by (simp add: handleKeyDown_def)
      next
        case OtherKey
        with False Some rc same show ?thesis by (simp add: handleKeyDown_def)
      qed
    qed
  qed
qed

lemma handle_handled:
  assumes inv: "sessionInv st" and wf: "wf_event e"
  shows "handled st (fst (handle st e))"
proof -
  from inv have i: "\<forall>n. shape9 (rowStore st n)" "selOk st" "budgetOk st"
    "boardRows (cells (inputClosure st)) = boardRows st"
    "selectedCell (cells (inputClosure st)) = selectedCell st"
    by (simp_all add: sessionInv_def)
  have same: "handled st st" using i(1,2) by (intro handled_refl_like) simp_all
  show ?thesis
  proof (cases e)
    case (NewGame s p)
    with wf have "shape9 p" by (simp add: wf_event_def wf_grid_shape9)
    with i(1,2) NewGame show ?thesis
      by (simp add: handle_def handled_def generateSudoku_def selOk_def)
  next
    case (CellClick r c)
    with wf i(1,2) same show ?thesis
      by (simp add: handle_def handleCellClick_def handled_def selOk_def wf_event_def)
  next
    case (PadInput n)
    have "selOk (cells (inputClosure st))" using i(2,5) by (simp add: selOk_def)
    with i(1,2,3,4) have "handled st (fst (runNumberInput (cells (inputClosure st)) st n))"
      by (intro runNumberInput_handled) simp_all
    with PadInput show ?thesis by (simp add: handle_def handleNumberInput_def)
  next
    case (KeyDown k)
    with handleKeyDown_handled[OF inv, of k] show ?thesis by (simp add: handle_def)
  next
    case HintButton
    with i(1,2) same show ?thesis
      by (cases "selectedCell st")
         (auto simp: handle_def provideHint_def Let_def intro!: handled_refl_like)
  next
    case PauseButton
    with i(1,2) same show ?thesis
      by (auto simp: handle_def togglePause_def intro!: handled_refl_like)
  next
    case Tick
    with i(1,2) same show ?thesis
      by (auto simp: handle_def tick_def intro!: handled_refl_like)
  next
    case (SetDifficulty d)
    with i(1,2) show ?thesis
      by (auto simp: handle_def intro!: handled_refl_like)
  next
    case (SetPlayerName n)
    with i(1,2) show ?thesis
      by (auto simp: handle_def setPlayerName_def Let_def intro!: handled_refl_like)
  next
    case CreateProfile
    with i(1,2) same show ?thesis
      by (auto simp: handle_def createProfile_def intro!: handled_refl_like)
  qed
qed

lemma step_inv:
  assumes "sessionInv st" "wf_event e"
  shows "sessionInv (fst (step st e))"
proof (cases "delivered st e")
  case False
  with assms(1) show ?thesis by (simp add: step_def)
next
  case True
  from render_inv[OF assms(1) handle_handled[OF assms]] True show ?thesis
    by (simp add: step_def split_beta)
qed

lemma initial_inv: "sessionInv initialState"
  by (simp add: sessionInv_def initialState_def mountedVars_def shape9_def emptyBoard_def selOk_def
      budgetOk_def board_def countOnBoard_def inputDeps_def listenerDeps_def)

lemma reachable_inv: "reachable st \<Longrightarrow> sessionInv st"
  by (induction rule: reachable.induct) (simp_all add: initial_inv step_inv)

lemma reachable_run: "reachable st \<Longrightarrow> list_all wf_event es \<Longrightarrow> reachable (fst (run st es))"
proof (induction es arbitrary: st)
  case Nil then show ?case by simp
next
  case (Cons e es)
  from Cons.prems have "reachable (fst (step st e))" by (simp add: reach_step)
  from Cons.IH[OF this] Cons.prems(2) show ?case by (simp add: split_beta)
qed

lemma runNumberInput_budget:
  assumes "budgetOk st" "\<forall>n. shape9 (rowStore st n)" "selOk cl" "boardRows cl = boardRows st"
  shows "budgetOk (fst (runNumberInput cl st num))"
proof -
  from runNumberInput_cases[of cl st num]
  consider (commit) r c where "selectedCell cl = Some (r, c)"
      "runNumberInput cl st num = commitMove cl st r c num"
    | (other) "rowStore (fst (runNumberInput cl st num)) = rowStore st"
      "boardRows (fst (runNumberInput cl st num)) = boardRows st"
      "numberUsage (fst (runNumberInput cl st num)) = numberUsage st"
    by blast
  then show ?thesis
  proof cases
    case other
    with assms(1) show ?thesis by (simp add: budgetOk_def board_def)
  next
    case commit
    from assms(3) commit(1) have rc: "r < 9" "c < 9" by (simp_all add: selOk_def)
    have "shape9 (board st)" using assms(2) by (simp add: board_def)
    from commitMove_budget[OF assms(1) this rc assms(4)] commit(2) show ?thesis by simp
  qed
qed

text \<open>
  Claim C4. In every state reached from the mounted component by well-formed events, for
  every digit \<open>d\<close> in \<open>1..9\<close> the budget \<open>numberUsage[d]\<close> plus the number of cells of the
  working board holding \<open>d\<close> is 9. The equation also holds right after
  \<open>handleNumberInput\<close> alone, before the recount effect has run: the incremental updates of
  a placement and of an erase (and the rejections, which change nothing) preserve it.
  (The states are those between two events. The callback of the key listener may be out
  of date; it runs only while a game is on, and the recount effect that follows its
  \<open>setBoard\<close> restores the equation.)
\<close>

theorem digit_budget_invariant:
  assumes "reachable st" "1 \<le> d" "d \<le> 9"
  shows "numberUsage st d + int (countOnBoard (board st) d) = 9 \<and>
     (\<forall>num. numberUsage (fst (handleNumberInput st num)) d
            + int (countOnBoard (board (fst (handleNumberInput st num))) d) = 9)"
proof -
  have i: "sessionInv st" using assms(1) by (rule reachable_inv)
  then have b: "budgetOk st" and sh: "\<forall>n. shape9 (rowStore st n)"
    and r: "boardRows (cells (inputClosure st)) = boardRows st"
    and s: "selOk (cells (inputClosure st))"
    by (simp_all add: sessionInv_def selOk_def)
  have "\<And>num. budgetOk (fst (handleNumberInput st num))"
    unfolding handleNumberInput_def by (rule runNumberInput_budget[OF b sh s r])
  with b assms(2,3) show ?thesis by (simp add: budgetOk_def)
qed

lemma profiled_reachable: "reachable profiled"
  unfolding profiled_def
  by (rule reachable_run[OF reach_init]) code_simp

lemma exampleGame_reachable: "reachable exampleGame"
  unfolding exampleGame_def
  by (rule reachable_run[OF profiled_reachable]) code_simp

lemma twoCellGame_reachable: "reachable twoCellGame"
  unfolding twoCellGame_def
  by (rule reachable_run[OF profiled_reachable]) code_simp

theorem digit_budget_invariant_witness:
  "reachable exampleGame \<and> (1::nat) \<le> 1 \<and> (1::nat) \<le> 9 \<and>
   numberUsage exampleGame 1 + int (countOnBoard (board exampleGame) 1) = 9 \<and>
   numberUsage (fst (handleNumberInput exampleGame 1)) 1
            + int (countOnBoard (board (fst (handleNumberInput exampleGame 1))) 1) = 9"
  using exampleGame_reachable digit_budget_invariant[OF exampleGame_reachable, of 1] by simp

text \<open>
  Claim C3 fails on the code. In the concrete session the cell \<open>(0,1)\<close> is a given of the
  puzzle (digit 2). The cell \<open>(0,0)\<close> is selected by a click, the right arrow key moves the
  selection onto the given (\<open>handleKeyDown\<close> does not consult \<open>initialBoard\<close>, as
  \<open>handleCellClick\<close> does), and Backspace erases it.
\<close>

theorem given_cell_erased_via_arrow_key:
  "initialBoard (fst (run exampleGame [KeyDown ArrowRight, KeyDown Backspace])) ! 0 ! 1 = 2
   \<and> board (fst (run exampleGame [KeyDown ArrowRight, KeyDown Backspace])) ! 0 ! 1 = 0
   \<and> reachable (fst (run exampleGame [KeyDown ArrowRight, KeyDown Backspace]))"
proof -
  have "reachable (fst (run exampleGame [KeyDown ArrowRight, KeyDown Backspace]))"
    by (rule reachable_run[OF exampleGame_reachable]) code_simp
  moreover have "initialBoard (fst (run exampleGame [KeyDown ArrowRight, KeyDown Backspace])) ! 0 ! 1 = 2"
    by code_simp
  moreover have "board (fst (run exampleGame [KeyDown ArrowRight, KeyDown Backspace])) ! 0 ! 1 = 0"
    by code_simp
  ultimately show ?thesis by simp
qed

lemma render_same: "inputDeps (cells (inputClosure st)) = inputDeps st \<Longrightarrow> render st st = st"
  by (simp add: render_def rebuild_def Let_def)

text \<open>
  Claim C8 fails on the code. With the profile created and before any game has been
  started, a click selects a cell and a number-pad input is evaluated against the all-zero
  solution: it is counted as a wrong attempt. Neither \<open>handleCellClick\<close> nor
  \<open>handleNumberInput\<close> tests \<open>gameStarted\<close>; the keyboard handler does, and the same digit
  typed on the keyboard changes nothing.
\<close>

theorem select_and_input_before_game_started:
  "profileCreated profiled \<and> \<not> gameStarted profiled
   \<and> selectedCell (fst (step profiled (CellClick 0 0))) = Some (0, 0)
   \<and> wrongAttempts (fst (run profiled [CellClick 0 0, PadInput 5])) = 1
   \<and> snd (run profiled [CellClick 0 0, PadInput 5]) = [WrongNumber 2]
   \<and> run profiled [CellClick 0 0, KeyDown (DigitKey 5)] = (fst (step profiled (CellClick 0 0)), [])"
proof -
  define s1 where "s1 = fst (step profiled (CellClick 0 0))"
  have "reachable s1" unfolding s1_def by (rule reach_step[OF profiled_reachable]) (simp add: wf_event_def)
  then have "sessionInv s1" by (rule reachable_inv)
  then have d: "inputDeps (cells (inputClosure s1)) = inputDeps s1" by (simp add: sessionInv_def)
  have g: "\<not> gameStarted (cells (listenerRender s1))" unfolding s1_def by code_simp
  have k: "step s1 (KeyDown (DigitKey 5)) = (s1, [])"
    using g by (simp add: step_def delivered_def handle_def handleKeyDown_def render_same[OF d])
  have t: "snd (step profiled (CellClick 0 0)) = []"
    by (simp add: step_def handle_def split_beta)
  have "profileCreated profiled" by code_simp
  moreover have "\<not> gameStarted profiled" by code_simp
  moreover have "selectedCell (fst (step profiled (CellClick 0 0))) = Some (0, 0)" by code_simp
  moreover have "wrongAttempts (fst (run profiled [CellClick 0 0, PadInput 5])) = 1" by code_simp
  moreover have "snd (run profiled [CellClick 0 0, PadInput 5]) = [WrongNumber 2]" by code_simp
  moreover have "run profiled [CellClick 0 0, KeyDown (DigitKey 5)] = (fst (step profiled (CellClick 0 0)), [])"
    using k t by (simp add: split_beta s1_def prod_eq_iff)
  ultimately show ?thesis by simp
qed

text \<open>
  Claim C5 fails on the code. In a running game the cell \<open>(0,0)\<close> is selected; its
  solution digit is 1. The wrong digit 8 typed three times on the keyboard is reported
  as wrong three times, but the count of wrong attempts stays at 1 and the session does
  not fail: the key listener is registered anew only when the selection, \<open>gameStarted\<close>,
  \<open>gameCompleted\<close> or \<open>isPaused\<close> change, so it keeps calling the \<open>handleNumberInput\<close> of
  the render of the click, which computes the new count from \<open>wrongAttempts = 0\<close>. The
  same digit entered three times through the number pad counts 1, 2, 3 and ends the
  session.
\<close>

theorem wrong_key_counted_once:
  "selectedCell twoCellGame = Some (0, 0) \<and> initialBoard twoCellGame ! 0 ! 0 = 0
   \<and> solution twoCellGame ! 0 ! 0 = 1
   \<and> gameStarted twoCellGame \<and> \<not> gameCompleted twoCellGame \<and> \<not> isPaused twoCellGame
   \<and> wrongAttempts twoCellGame = 0
   \<and> wrongAttempts (fst (run twoCellGame [KeyDown (DigitKey 8)])) = 1
   \<and> wrongAttempts (fst (run twoCellGame [KeyDown (DigitKey 8), KeyDown (DigitKey 8)])) = 1
   \<and> wrongAttempts (fst (run twoCellGame [KeyDown (DigitKey 8), KeyDown (DigitKey 8), KeyDown (DigitKey 8)])) = 1
   \<and> \<not> gameCompleted (fst (run twoCellGame [KeyDown (DigitKey 8), KeyDown (DigitKey 8), KeyDown (DigitKey 8)]))
   \<and> snd (run twoCellGame [KeyDown (DigitKey 8), KeyDown (DigitKey 8), KeyDown (DigitKey 8)])
       = [WrongNumber 2, WrongNumber 2, WrongNumber 2]
   \<and> wrongAttempts (fst (run twoCellGame [PadInput 8, PadInput 8, PadInput 8])) = 3
   \<and> gameCompleted (fst (run twoCellGame [PadInput 8, PadInput 8, PadInput 8]))
   \<and> snd (run twoCellGame [PadInput 8, PadInput 8, PadInput 8]) = [WrongNumber 2, WrongNumber 1, GameOver]
   \<and> reachable (fst (run twoCellGame [KeyDown (DigitKey 8), KeyDown (DigitKey 8), KeyDown (DigitKey 8)]))"
proof -
  have "reachable (fst (run twoCellGame [KeyDown (DigitKey 8), KeyDown (DigitKey 8), KeyDown (DigitKey 8)]))"
    by (rule reachable_run[OF twoCellGame_reachable]) code_simp
  moreover have "selectedCell twoCellGame = Some (0, 0)" by code_simp
  moreover have "initialBoard twoCellGame ! 0 ! 0 = 0" by code_simp
  moreover have "solution twoCellGame ! 0 ! 0 = 1" by code_simp
  moreover have "gameStarted twoCellGame" by code_simp
  moreover have "\<not> gameCompleted twoCellGame" by code_simp
  moreover have "\<not> isPaused twoCellGame" by code_simp
  moreover have "wrongAttempts twoCellGame = 0" by code_simp
  moreover have "wrongAttempts (fst (run twoCellGame [KeyDown (DigitKey 8)])) = 1" by code_simp
  moreover have "wrongAttempts (fst (run twoCellGame [KeyDown (DigitKey 8), KeyDown (DigitKey 8)])) = 1"
    by code_simp
  moreover have "wrongAttempts (fst (run twoCellGame [KeyDown (DigitKey 8), KeyDown (DigitKey 8), KeyDown (DigitKey 8)])) = 1"
    by code_simp
  moreover have "\<not> gameCompleted (fst (run twoCellGame [KeyDown (DigitKey 8), KeyDown (DigitKey 8), KeyDown (DigitKey 8)]))"
    by code_simp
  moreover have "snd (run twoCellGame [KeyDown (DigitKey 8), KeyDown (DigitKey 8), KeyDown (DigitKey 8)])
       = [WrongNumber 2, WrongNumber 2, WrongNumber 2]" by code_simp
  moreover have "wrongAttempts (fst (run twoCellGame [PadInput 8, PadInput 8, PadInput 8])) = 3" by code_simp
  moreover have "gameCompleted (fst (run twoCellGame [PadInput 8, PadInput 8, PadInput 8]))" by code_simp
  moreover have "snd (run twoCellGame [PadInput 8, PadInput 8, PadInput 8]) = [WrongNumber 2, WrongNumber 1, GameOver]"
    by code_simp
  ultimately show ?thesis by simp
qed

lemma almostDone_reachable: "reachable almostDone"
  unfolding almostDone_def
  by (rule reachable_run[OF exampleGame_reachable]) code_simp

lemma firstGameWon_reachable: "reachable firstGameWon"
  unfolding firstGameWon_def
  by (rule reachable_run[OF profiled_reachable]) code_simp

lemma secondGame_reachable: "reachable secondGame"
  unfolding secondGame_def
  by (rule reachable_run[OF firstGameWon_reachable]) code_simp

text \<open>
  Claim C9 fails on the code. \<open>handleNumberInput\<close> is not rebuilt when \<open>timer\<close>,
  \<open>difficulty\<close> or \<open>playerName\<close> change, so on completion it calls the \<open>saveBestTime\<close> of
  the render in which it was last rebuilt, with the \<open>timer\<close> of that render. A game
  completed three seconds after the click that selected the last cell stores the time 0.
  And with the record 2 stored from a first game, a second game completed after seven
  seconds (the cell is still selected, so the last rebuild was at the start of the game)
  compares 0 with 2 and overwrites the record.
\<close>

theorem best_time_written_from_stale_timer:
  "timer almostDone = 3 \<and> bestTimesStore almostDone (''ann'', ''medium'') = None
   \<and> gameCompleted (fst (step almostDone (PadInput 1)))
   \<and> timer (fst (step almostDone (PadInput 1))) = 3
   \<and> bestTimesStore (fst (step almostDone (PadInput 1))) (''ann'', ''medium'') = Some 0
   \<and> bestTimesStore secondGame (''ann'', ''medium'') = Some 2
   \<and> timer secondGame = 7 \<and> \<not> gameCompleted secondGame
   \<and> gameCompleted (fst (step secondGame (PadInput 1)))
   \<and> snd (step secondGame (PadInput 1)) = [SmartMove ''row, column and box'', Congratulations]
   \<and> timer (fst (step secondGame (PadInput 1))) = 7
   \<and> bestTimesStore (fst (step secondGame (PadInput 1))) (''ann'', ''medium'') = Some 0
   \<and> reachable (fst (step secondGame (PadInput 1)))"
proof -
  have "reachable (fst (step secondGame (PadInput 1)))"
    by (rule reach_step[OF secondGame_reachable]) (simp add: wf_event_def)
  moreover have "timer almostDone = 3" by code_simp
  moreover have "bestTimesStore almostDone (''ann'', ''medium'') = None" by code_simp
  moreover have "gameCompleted (fst (step almostDone (PadInput 1)))" by code_simp
  moreover have "timer (fst (step almostDone (PadInput 1))) = 3" by code_simp
  moreover have "bestTimesStore (fst (step almostDone (PadInput 1))) (''ann'', ''medium'') = Some 0"
    by code_simp
  moreover have "bestTimesStore secondGame (''ann'', ''medium'') = Some 2" by code_simp
  moreover have "timer secondGame = 7" by code_simp
  moreover have "\<not> gameCompleted secondGame" by code_simp
  moreover have "gameCompleted (fst (step secondGame (PadInput 1)))" by code_simp
  moreover have "snd (step secondGame (PadInput 1)) = [SmartMove ''row, column and box'', Congratulations]"
    by code_simp
  moreover have "timer (fst (step secondGame (PadInput 1))) = 7" by code_simp
  moreover have "bestTimesStore (fst (step secondGame (PadInput 1))) (''ann'', ''medium'') = Some 0"
    by code_simp
  ultimately show ?thesis by simp
qed

text \<open>
  Claim C10 fails on the code. The cell \<open>(0,0)\<close> is selected; typing its digit 1
  completes its row, column and box, and the signal is emitted. Backspace empties the
  cell, and typing 1 again emits the signal with the same label a second time, although
  the label of the preceding signal has not changed: the key listener calls the
  \<open>handleNumberInput\<close> of the render of the click, whose \<open>checkForSmartMove\<close> compares with
  the \<open>lastSmartMove\<close> of that render. The same three inputs through the number pad emit
  the signal once.
\<close>

theorem smart_move_repeated_via_keyboard:
  "snd (run twoCellGame [KeyDown (DigitKey 1)]) = [SmartMove ''row, column and box'']
   \<and> lastSmartMove (fst (run twoCellGame [KeyDown (DigitKey 1), KeyDown Backspace])) = ''row, column and box''
   \<and> board (fst (run twoCellGame [KeyDown (DigitKey 1), KeyDown Backspace])) ! 0 ! 0 = 0
   \<and> board (fst (run twoCellGame [KeyDown (DigitKey 1), KeyDown Backspace, KeyDown (DigitKey 1)])) ! 0 ! 0 = 1
   \<and> snd (run twoCellGame [KeyDown (DigitKey 1), KeyDown Backspace, KeyDown (DigitKey 1)])
       = [SmartMove ''row, column and box'', SmartMove ''row, column and box'']
   \<and> snd (run twoCellGame [PadInput 1, PadInput 0, PadInput 1]) = [SmartMove ''row, column and box'']
   \<and> reachable (fst (run twoCellGame [KeyDown (DigitKey 1), KeyDown Backspace, KeyDown (DigitKey 1)]))"
proof -
  have "reachable (fst (run twoCellGame [KeyDown (DigitKey 1), KeyDown Backspace, KeyDown (DigitKey 1)]))"
    by (rule reachable_run[OF twoCellGame_reachable]) code_simp
  moreover have "snd (run twoCellGame [KeyDown (DigitKey 1)]) = [SmartMove ''row, column and box'']"
    by code_simp
  moreover have "lastSmartMove (fst (run twoCellGame [KeyDown (DigitKey 1), KeyDown Backspace])) = ''row, column and box''"
    by code_simp
  moreover have "board (fst (run twoCellGame [KeyDown (DigitKey 1), KeyDown Backspace])) ! 0 ! 0 = 0"
    by code_simp
  moreover have "board (fst (run twoCellGame [KeyDown (DigitKey 1), KeyDown Backspace, KeyDown (DigitKey 1)])) ! 0 ! 0 = 1"
    by code_simp
  moreover have "snd (run twoCellGame [KeyDown (DigitKey 1), KeyDown Backspace, KeyDown (DigitKey 1)])
       = [SmartMove ''row, column and box'', SmartMove ''row, column and box'']" by code_simp
  moreover have "snd (run twoCellGame [PadInput 1, PadInput 0, PadInput 1]) = [SmartMove ''row, column and box'']"
    by code_simp
  ultimately show ?thesis by simp
qed

section \<open>Properties of the puzzle engine\<close>

subsection \<open>Cells of well-shaped grids\<close>

lemma shape9_nth: "shape9 b \<Longrightarrow> r < 9 \<Longrightarrow> length (b ! r) = 9"
  by (simp add: shape9_def)

lemma setCell_nth:
  assumes "shape9 b" "r < 9" "c < 9" "r' < 9" "c' < 9"
  shows "setCell b r c v ! r' ! c' = (if r' = r \<and> c' = c then v else b ! r' ! c')"
  using assms by (auto simp: setCell_def shape9_def nth_list_update)

lemma setCell_same: "shape9 b \<Longrightarrow> r < 9 \<Longrightarrow> c < 9 \<Longrightarrow> setCell b r c (b ! r ! c) = b"
  by (simp add: setCell_def shape9_def)

lemma setCell_twice: "setCell (setCell b r c v) r c w = setCell b r c w"
  by (cases "r < length b") (simp_all add: setCell_def list_update_beyond)

lemma grid_eqI:
  assumes "shape9 a" "shape9 b" "\<And>r c. r < 9 \<Longrightarrow> c < 9 \<Longrightarrow> a ! r ! c = b ! r ! c"
  shows "a = b"
proof (rule nth_equalityI)
  show "length a = length b" using assms by (simp add: shape9_def)
  fix r assume "r < length a"
  then have r: "r < 9" using assms(1) by (simp add: shape9_def)
  show "a ! r = b ! r"
  proof (rule nth_equalityI)
    show "length (a ! r) = length (b ! r)" using assms(1,2) r by (simp add: shape9_nth)
    fix c assume "c < length (a ! r)"
    then have "c < 9" using assms(1) r by (simp add: shape9_nth)
    then show "a ! r ! c = b ! r ! c" using r assms(3) by simp
  qed
qed

lemma wf_grid_iff: "wf_grid b \<longleftrightarrow> shape9 b \<and> (\<forall>r<9. \<forall>c<9. b ! r ! c \<le> 9)"
proof
  assume w: "wf_grid b"
  then have s: "shape9 b" by (rule wf_grid_shape9)
  have "\<forall>r<9. \<forall>c<9. b ! r ! c \<le> 9"
  proof (intro allI impI)
    fix r c :: nat assume rc: "r < 9" "c < 9"
    with s have "b ! r \<in> set b" "c < length (b ! r)" by (auto simp: shape9_def)
    with w show "b ! r ! c \<le> 9" by (auto simp: wf_grid_def list_all_iff)
  qed
  with s show "shape9 b \<and> (\<forall>r<9. \<forall>c<9. b ! r ! c \<le> 9)" by simp
next
  assume a: "shape9 b \<and> (\<forall>r<9. \<forall>c<9. b ! r ! c \<le> 9)"
  show "wf_grid b"
    unfolding wf_grid_def list_all_iff
  proof (intro conjI ballI)
    show "length b = 9" using a by (simp add: shape9_def)
    fix row assume row: "row \<in> set b"
    then obtain r where r: "r < length b" "row = b ! r" by (auto simp: in_set_conv_nth)
    with a have r9: "r < 9" by (simp add: shape9_def)
    show "length row = 9" using a row by (simp add: shape9_def)
    fix v assume "v \<in> set row"
    then obtain c where c: "c < length row" "v = row ! c" by (auto simp: in_set_conv_nth)
    with a r r9 have "c < 9" by (simp add: shape9_def)
    with a r r9 c show "v \<le> 9" by simp
  qed
qed

subsection \<open>The constraint checker, cell by cell\<close>

lemma box_rows3: "(\<exists>i<3. r' = 3 * k + i) \<longleftrightarrow> (r' div 3 = k)"
  for r' k :: nat
proof
  assume "\<exists>i<3. r' = 3 * k + i"
  then obtain i where "i < 3" "r' = 3 * k + i" by blast
  then show "r' div 3 = k" by simp
next
  assume k: "r' div 3 = k"
  have "r' mod 3 < 3" by simp
  moreover have "r' = 3 * k + r' mod 3" using k by (metis mult_div_mod_eq)
  ultimately show "\<exists>i<3. r' = 3 * k + i" by blast
qed

lemma box_rows: "(\<exists>i<3. r' = r - r mod 3 + i) \<longleftrightarrow> (r' div 3 = r div 3)"
  for r r' :: nat
  using box_rows3[of r' "r div 3"] by (simp add: minus_mod_eq_mult_div)

lemma box_all: "(\<forall>i<3. P (r - r mod 3 + i)) \<longleftrightarrow> (\<forall>r'. r' div 3 = r div 3 \<longrightarrow> P r')"
  for r :: nat
  using box_rows[of _ r] by metis

lemma div3_lt9: "r < 9 \<Longrightarrow> r' div 3 = r div 3 \<Longrightarrow> r' < 9" for r r' :: nat
proof -
  assume a: "r < 9" "r' div 3 = r div 3"
  then have "r' div 3 < 3" by simp
  then show "r' < 9" by (simp add: div_less_iff_less_mult)
qed

lemma isValid_unfold:
  "isValid b r c d \<longleftrightarrow>
      (\<forall>x<9. b ! r ! x \<noteq> d) \<and> (\<forall>x<9. b ! x ! c \<noteq> d)
      \<and> (\<forall>i<3. \<forall>j<3. b ! (r - r mod 3 + i) ! (c - c mod 3 + j) \<noteq> d)"
  by (simp only: isValid_def Let_def list_ex_iff set_upt Bex_def atLeastLessThan_iff le0
        simp_thms if_bool_eq_conj) blast

lemma isValid_iff:
  assumes "r < 9" "c < 9"
  shows "isValid b r c d \<longleftrightarrow> (\<forall>r'<9. \<forall>c'<9. sameUnit r c r' c' \<longrightarrow> b ! r' ! c' \<noteq> d)"
proof -
  have b1: "(\<forall>i<3. \<forall>j<3. b ! (r - r mod 3 + i) ! (c - c mod 3 + j) \<noteq> d)
      \<longleftrightarrow> (\<forall>i<3. \<forall>c'. c' div 3 = c div 3 \<longrightarrow> b ! (r - r mod 3 + i) ! c' \<noteq> d)"
    using box_all[of "\<lambda>y. b ! (r - r mod 3 + i) ! y \<noteq> d" c for i] by simp
  have b2: "(\<forall>i<3. \<forall>c'. c' div 3 = c div 3 \<longrightarrow> b ! (r - r mod 3 + i) ! c' \<noteq> d)
      \<longleftrightarrow> (\<forall>r'. r' div 3 = r div 3 \<longrightarrow> (\<forall>c'. c' div 3 = c div 3 \<longrightarrow> b ! r' ! c' \<noteq> d))"
    using box_all[of "\<lambda>x. \<forall>c'. c' div 3 = c div 3 \<longrightarrow> b ! x ! c' \<noteq> d" r] by simp
  have bx: "(\<forall>i<3. \<forall>j<3. b ! (r - r mod 3 + i) ! (c - c mod 3 + j) \<noteq> d)
      \<longleftrightarrow> (\<forall>r' c'. r' div 3 = r div 3 \<and> c' div 3 = c div 3 \<longrightarrow> b ! r' ! c' \<noteq> d)"
    unfolding b1 b2 by blast
  show ?thesis
  proof
    assume v: "isValid b r c d"
    show "\<forall>r'<9. \<forall>c'<9. sameUnit r c r' c' \<longrightarrow> b ! r' ! c' \<noteq> d"
    proof (intro allI impI)
      fix r' c' assume h: "r' < 9" "c' < 9" "sameUnit r c r' c'"
      from v have 1: "\<forall>x<9. b ! r ! x \<noteq> d" and 2: "\<forall>x<9. b ! x ! c \<noteq> d"
        and 3: "\<forall>r' c'. r' div 3 = r div 3 \<and> c' div 3 = c div 3 \<longrightarrow> b ! r' ! c' \<noteq> d"
        unfolding isValid_unfold bx by blast+
      from h(3) consider "r = r'" | "c = c'" | "r div 3 = r' div 3 \<and> c div 3 = c' div 3"
        by (auto simp: sameUnit_def)
      then show "b ! r' ! c' \<noteq> d"
      proof cases
        case 1 with \<open>\<forall>x<9. b ! r ! x \<noteq> d\<close> h show ?thesis by blast
      next
        case 2 with \<open>\<forall>x<9. b ! x ! c \<noteq> d\<close> h show ?thesis by blast
      next
        case 3 with \<open>\<forall>r' c'. r' div 3 = r div 3 \<and> c' div 3 = c div 3 \<longrightarrow> b ! r' ! c' \<noteq> d\<close>
        show ?thesis by simp
      qed
    qed
  next
    assume a: "\<forall>r'<9. \<forall>c'<9. sameUnit r c r' c' \<longrightarrow> b ! r' ! c' \<noteq> d"
    have 1: "\<forall>x<9. b ! r ! x \<noteq> d" using a assms by (simp add: sameUnit_def)
    have 2: "\<forall>x<9. b ! x ! c \<noteq> d" using a assms by (simp add: sameUnit_def)
    have 3: "\<forall>r' c'. r' div 3 = r div 3 \<and> c' div 3 = c div 3 \<longrightarrow> b ! r' ! c' \<noteq> d"
    proof (intro allI impI)
      fix r' c' assume h: "r' div 3 = r div 3 \<and> c' div 3 = c div 3"
      then have "r' < 9" "c' < 9" using assms div3_lt9 by blast+
      with a h show "b ! r' ! c' \<noteq> d" by (simp add: sameUnit_def)
    qed
    show "isValid b r c d" unfolding isValid_unfold bx using 1 2 3 by blast
  qed
qed

subsection \<open>Conflicts, solved grids, completions\<close>

lemma units_all:
  "list_all P (units s) \<longleftrightarrow>
     (\<forall>r<9. P (rowValues s r)) \<and> (\<forall>c<9. P (colValues s c)) \<and> (\<forall>k<9. P (boxValues s k))"
  by (auto simp: units_def list_all_iff)

lemma filter_nonzero_map:
  "filter (\<lambda>v. v \<noteq> (0::nat)) (map f xs) = map f (filter (\<lambda>i. f i \<noteq> 0) xs)"
  by (induction xs) simp_all

lemma inj_on_nonzero:
  "inj_on f {i. i < n \<and> f i \<noteq> (0::nat)} \<longleftrightarrow> (\<forall>i<n. \<forall>j<n. i \<noteq> j \<and> f i \<noteq> 0 \<longrightarrow> f i \<noteq> f j)"
  for n :: nat
proof
  assume inj: "inj_on f {i. i < n \<and> f i \<noteq> 0}"
  show "\<forall>i<n. \<forall>j<n. i \<noteq> j \<and> f i \<noteq> 0 \<longrightarrow> f i \<noteq> f j"
  proof (intro allI impI notI)
    fix i j assume h: "i < n" "j < n" "i \<noteq> j \<and> f i \<noteq> 0" "f i = f j"
    then have "i \<in> {i. i < n \<and> f i \<noteq> 0}" "j \<in> {i. i < n \<and> f i \<noteq> 0}" by simp_all
    with inj h(4) have "i = j" by (rule inj_onD)
    with h(3) show False by simp
  qed
next
  assume a: "\<forall>i<n. \<forall>j<n. i \<noteq> j \<and> f i \<noteq> 0 \<longrightarrow> f i \<noteq> f j"
  show "inj_on f {i. i < n \<and> f i \<noteq> 0}"
  proof (rule inj_onI)
    fix x y assume "x \<in> {i. i < n \<and> f i \<noteq> 0}" "y \<in> {i. i < n \<and> f i \<noteq> 0}" "f x = f y"
    with a show "x = y" by (metis (mono_tags, lifting) mem_Collect_eq)
  qed
qed

lemma distinct_nonzero_map:
  "distinct (filter (\<lambda>v. v \<noteq> 0) (map f [0..<n])) \<longleftrightarrow>
     (\<forall>i<n. \<forall>j<n. i \<noteq> j \<and> f i \<noteq> (0::nat) \<longrightarrow> f i \<noteq> f j)"
proof -
  have s: "set (filter (\<lambda>i. f i \<noteq> 0) [0..<n]) = {i. i < n \<and> f i \<noteq> 0}" by auto
  have "distinct (filter (\<lambda>v. v \<noteq> 0) (map f [0..<n])) \<longleftrightarrow> inj_on f {i. i < n \<and> f i \<noteq> 0}"
    by (simp only: filter_nonzero_map distinct_map s distinct_filter distinct_upt simp_thms)
  then show ?thesis by (simp only: inj_on_nonzero)
qed

text \<open>Box number and position in the box of a cell, and back.\<close>

lemma box_cell:
  fixes r c :: nat
  assumes "r < 9" "c < 9"
  shows "3 * (r div 3) + c div 3 < 9" "3 * (r mod 3) + c mod 3 < 9"
    "3 * ((3 * (r div 3) + c div 3) div 3) + (3 * (r mod 3) + c mod 3) div 3 = r"
    "3 * ((3 * (r div 3) + c div 3) mod 3) + (3 * (r mod 3) + c mod 3) mod 3 = c"
proof -
  have d: "r div 3 < 3" "c div 3 < 3" using assms by simp_all
  have m: "r mod 3 < 3" "c mod 3 < 3" by simp_all
  show "3 * (r div 3) + c div 3 < 9" using d by linarith
  show "3 * (r mod 3) + c mod 3 < 9" using m by linarith
  have 1: "(3 * (r div 3) + c div 3) div 3 = r div 3" using d by simp
  have 2: "(3 * (r mod 3) + c mod 3) div 3 = r mod 3" using m by simp
  have 3: "(3 * (r div 3) + c div 3) mod 3 = c div 3" using d by simp
  have 4: "(3 * (r mod 3) + c mod 3) mod 3 = c mod 3" using m by simp
  show "3 * ((3 * (r div 3) + c div 3) div 3) + (3 * (r mod 3) + c mod 3) div 3 = r"
    unfolding 1 2 by simp
  show "3 * ((3 * (r div 3) + c div 3) mod 3) + (3 * (r mod 3) + c mod 3) mod 3 = c"
    unfolding 3 4 by simp
qed

lemma cell_box:
  fixes k n :: nat
  assumes "k < 9" "n < 9"
  shows "3 * (k div 3) + n div 3 < 9" "3 * (k mod 3) + n mod 3 < 9"
    "(3 * (k div 3) + n div 3) div 3 = k div 3" "(3 * (k mod 3) + n mod 3) div 3 = k mod 3"
    "3 * ((3 * (k div 3) + n div 3) mod 3) + (3 * (k mod 3) + n mod 3) mod 3 = n"
proof -
  have d: "k div 3 < 3" "n div 3 < 3" using assms by simp_all
  have m: "k mod 3 < 3" "n mod 3 < 3" by simp_all
  show "3 * (k div 3) + n div 3 < 9" using d by linarith
  show "3 * (k mod 3) + n mod 3 < 9" using m by linarith
  show "(3 * (k div 3) + n div 3) div 3 = k div 3" using d by simp
  show "(3 * (k mod 3) + n mod 3) div 3 = k mod 3" using m by simp
  have 1: "(3 * (k div 3) + n div 3) mod 3 = n div 3" using d by simp
  have 2: "(3 * (k mod 3) + n mod 3) mod 3 = n mod 3" using m by simp
  show "3 * ((3 * (k div 3) + n div 3) mod 3) + (3 * (k mod 3) + n mod 3) mod 3 = n"
    unfolding 1 2 by simp
qed

lemma consistent_unitsDistinct: "consistent b \<longleftrightarrow> unitsDistinct b"
  unfolding consistent_def units_all rowValues_def colValues_def boxValues_def
    distinct_nonzero_map unitsDistinct_def ..

lemma unitsDistinct_row:
  "unitsDistinct b \<Longrightarrow> r < 9 \<Longrightarrow> i < 9 \<Longrightarrow> j < 9 \<Longrightarrow> i \<noteq> j \<Longrightarrow> b ! r ! i \<noteq> 0
     \<Longrightarrow> b ! r ! i \<noteq> b ! r ! j"
  by (simp add: unitsDistinct_def)

lemma unitsDistinct_col:
  "unitsDistinct b \<Longrightarrow> c < 9 \<Longrightarrow> i < 9 \<Longrightarrow> j < 9 \<Longrightarrow> i \<noteq> j \<Longrightarrow> b ! i ! c \<noteq> 0
     \<Longrightarrow> b ! i ! c \<noteq> b ! j ! c"
  by (simp add: unitsDistinct_def)

lemma unitsDistinct_box:
  "unitsDistinct b \<Longrightarrow> k < 9 \<Longrightarrow> i < 9 \<Longrightarrow> j < 9 \<Longrightarrow> i \<noteq> j
     \<Longrightarrow> b ! (3 * (k div 3) + i div 3) ! (3 * (k mod 3) + i mod 3) \<noteq> 0
     \<Longrightarrow> b ! (3 * (k div 3) + i div 3) ! (3 * (k mod 3) + i mod 3)
           \<noteq> b ! (3 * (k div 3) + j div 3) ! (3 * (k mod 3) + j mod 3)"
  by (simp add: unitsDistinct_def)

lemma noConflictD:
  "noConflict b \<Longrightarrow> r < 9 \<Longrightarrow> c < 9 \<Longrightarrow> r' < 9 \<Longrightarrow> c' < 9 \<Longrightarrow> r \<noteq> r' \<or> c \<noteq> c'
      \<Longrightarrow> sameUnit r c r' c' \<Longrightarrow> b ! r ! c \<noteq> 0 \<Longrightarrow> b ! r ! c \<noteq> b ! r' ! c'"
  by (simp add: noConflict_def)

lemma unitsDistinct_noConflict: "unitsDistinct b \<longleftrightarrow> noConflict b"
proof
  assume u: "unitsDistinct b"
  show "noConflict b"
    unfolding noConflict_def
  proof (intro allI impI)
    fix r c r' c' :: nat
    assume r: "r < 9" and c: "c < 9" and r': "r' < 9" and c': "c' < 9"
      and h: "(r \<noteq> r' \<or> c \<noteq> c') \<and> sameUnit r c r' c' \<and> b ! r ! c \<noteq> 0"
    from h have nz: "b ! r ! c \<noteq> 0" by simp
    from h consider "r = r'" "c \<noteq> c'" | "c = c'" "r \<noteq> r'"
      | "r div 3 = r' div 3" "c div 3 = c' div 3" "r \<noteq> r' \<or> c \<noteq> c'"
      unfolding sameUnit_def by blast
    then show "b ! r ! c \<noteq> b ! r' ! c'"
    proof cases
      case 1
      from unitsDistinct_row[OF u r c c' 1(2) nz] 1(1) show ?thesis by simp
    next
      case 2
      from unitsDistinct_col[OF u c r r' 2(2) nz] 2(1) show ?thesis by simp
    next
      case 3
      define k where "k = 3 * (r div 3) + c div 3"
      define i where "i = 3 * (r mod 3) + c mod 3"
      define j where "j = 3 * (r' mod 3) + c' mod 3"
      have k': "k = 3 * (r' div 3) + c' div 3" using 3 by (simp add: k_def)
      have 1: "k < 9" "i < 9" "3 * (k div 3) + i div 3 = r" "3 * (k mod 3) + i mod 3 = c"
        using box_cell[OF r c] by (simp_all add: k_def i_def)
      have 2: "j < 9" "3 * (k div 3) + j div 3 = r'" "3 * (k mod 3) + j mod 3 = c'"
        using box_cell[OF r' c'] by (simp_all add: k' j_def)
      have ij: "i \<noteq> j"
      proof
        assume "i = j"
        with 1(3,4) 2(2,3) have "r = r'" "c = c'" by simp_all
        with 3(3) show False by simp
      qed
      have nz': "b ! (3 * (k div 3) + i div 3) ! (3 * (k mod 3) + i mod 3) \<noteq> 0"
        using nz by (simp add: 1)
      from unitsDistinct_box[OF u 1(1,2) 2(1) ij nz'] show ?thesis
        by (simp add: 1 2)
    qed
  qed
next
  assume n: "noConflict b"
  note nc = noConflictD[OF n]
  show "unitsDistinct b"
    unfolding unitsDistinct_def
  proof (intro conjI allI impI)
    fix r i j :: nat assume "r < 9" "i < 9" "j < 9" "i \<noteq> j \<and> b ! r ! i \<noteq> 0"
    then show "b ! r ! i \<noteq> b ! r ! j" by (intro nc) (simp_all add: sameUnit_def)
  next
    fix c i j :: nat assume "c < 9" "i < 9" "j < 9" "i \<noteq> j \<and> b ! i ! c \<noteq> 0"
    then show "b ! i ! c \<noteq> b ! j ! c" by (intro nc) (simp_all add: sameUnit_def)
  next
    fix k i j :: nat assume k: "k < 9" and i: "i < 9" and j: "j < 9"
      and h: "i \<noteq> j \<and> b ! (3 * (k div 3) + i div 3) ! (3 * (k mod 3) + i mod 3) \<noteq> 0"
    have d: "3 * (k div 3) + i div 3 \<noteq> 3 * (k div 3) + j div 3
        \<or> 3 * (k mod 3) + i mod 3 \<noteq> 3 * (k mod 3) + j mod 3"
    proof (rule ccontr)
      assume "\<not> ?thesis"
      then have e: "3 * (k div 3) + i div 3 = 3 * (k div 3) + j div 3"
        "3 * (k mod 3) + i mod 3 = 3 * (k mod 3) + j mod 3" by blast+
      have "i = 3 * ((3 * (k div 3) + i div 3) mod 3) + (3 * (k mod 3) + i mod 3) mod 3"
        by (rule cell_box(5)[OF k i, symmetric])
      also have "\<dots> = 3 * ((3 * (k div 3) + j div 3) mod 3) + (3 * (k mod 3) + j mod 3) mod 3"
        by (simp only: e)
      also have "\<dots> = j" by (rule cell_box(5)[OF k j])
      finally show False using h by simp
    qed
    have su: "sameUnit (3 * (k div 3) + i div 3) (3 * (k mod 3) + i mod 3)
        (3 * (k div 3) + j div 3) (3 * (k mod 3) + j mod 3)"
      unfolding sameUnit_def using cell_box(3,4)[OF k i] cell_box(3,4)[OF k j] by simp
    from h have nz: "b ! (3 * (k div 3) + i div 3) ! (3 * (k mod 3) + i mod 3) \<noteq> 0" by simp
    show "b ! (3 * (k div 3) + i div 3) ! (3 * (k mod 3) + i mod 3)
           \<noteq> b ! (3 * (k div 3) + j div 3) ! (3 * (k mod 3) + j mod 3)"
      by (rule nc[OF cell_box(1,2)[OF k i] cell_box(1,2)[OF k j] d su nz])
  qed
qed

lemma consistent_iff: "consistent b \<longleftrightarrow> noConflict b"
  by (simp add: consistent_unitsDistinct unitsDistinct_noConflict)

lemma extends_iff: "extends g s \<longleftrightarrow> (\<forall>r<9. \<forall>c<9. g ! r ! c \<noteq> 0 \<longrightarrow> s ! r ! c = g ! r ! c)"
proof (intro iffI allI impI)
  fix r c :: nat
  assume e: "extends g s" and rc: "r < 9" "c < 9" and nz: "g ! r ! c \<noteq> 0"
  from e have "\<forall>r\<in>set [0..<9]. \<forall>c\<in>set [0..<9]. g ! r ! c = 0 \<or> s ! r ! c = g ! r ! c"
    by (simp only: extends_def list_all_iff)
  moreover have "r \<in> set [0..<9]" "c \<in> set [0..<9]" using rc by simp_all
  ultimately have "g ! r ! c = 0 \<or> s ! r ! c = g ! r ! c" by auto
  with nz show "s ! r ! c = g ! r ! c" by simp
next
  assume a: "\<forall>r<9. \<forall>c<9. g ! r ! c \<noteq> 0 \<longrightarrow> s ! r ! c = g ! r ! c"
  show "extends g s"
    unfolding extends_def list_all_iff
  proof (intro ballI)
    fix r c :: nat assume "r \<in> set [0..<9]" "c \<in> set [0..<9]"
    then have "r < 9" "c < 9" by simp_all
    with a show "g ! r ! c = 0 \<or> s ! r ! c = g ! r ! c" by auto
  qed
qed

lemma sameUnit_sym: "sameUnit r c r' c' \<Longrightarrow> sameUnit r' c' r c"
  by (auto simp: sameUnit_def)

lemma perm19_set: "mset vs = mset [1..<10] \<Longrightarrow> distinct vs \<and> set vs = {1..<10}"
  for vs :: "nat list"
proof -
  assume m: "mset vs = mset [1..<10]"
  have "distinct vs = distinct [1..<10::nat]" using m by (rule mset_eq_imp_distinct_iff)
  moreover have "set vs = set [1..<10::nat]" using m by (rule mset_eq_setD)
  ultimately show ?thesis by simp
qed

lemma perm19_I:
  fixes f :: "nat \<Rightarrow> nat"
  assumes "\<And>i. i < 9 \<Longrightarrow> f i \<noteq> 0 \<and> f i \<le> 9"
    and "\<And>i j. i < 9 \<Longrightarrow> j < 9 \<Longrightarrow> i \<noteq> j \<Longrightarrow> f i \<noteq> f j"
  shows "mset (map f [0..<9]) = mset [1..<10]"
proof -
  have inj: "inj_on f {0..<9}" using assms(2) by (auto simp: inj_on_def) metis
  have d: "distinct (map f [0..<9])" using inj by (simp add: distinct_map)
  have sub: "f ` {0..<9} \<subseteq> {1..<10}"
  proof
    fix x assume "x \<in> f ` {0..<9}"
    then obtain i where "i < 9" "x = f i" by auto
    with assms(1)[of i] show "x \<in> {1..<10}" by auto
  qed
  have "card (f ` {0..<9}) = 9" using inj by (simp add: card_image)
  then have "f ` {0..<9} = {1..<10}" using sub by (intro card_subset_eq) simp_all
  then have "set (map f [0..<9]) = set [1..<10]" by simp
  with d show ?thesis by (metis distinct_upt set_eq_iff_mset_eq_distinct)
qed

lemma solved_cells:
  assumes "solved s"
  shows "wf_grid s" "noConflict s" "\<And>r c. r < 9 \<Longrightarrow> c < 9 \<Longrightarrow> 1 \<le> s ! r ! c \<and> s ! r ! c \<le> 9"
proof -
  show w: "wf_grid s" using assms by (simp add: solved_def)
  have "\<forall>vs\<in>set (units s). mset vs = mset [1..<10]"
    using assms unfolding solved_def list_all_iff by blast
  then have u: "list_all (\<lambda>vs. distinct vs \<and> set vs = {1..<10}) (units s)"
    unfolding list_all_iff using perm19_set by blast
  then have "consistent s"
    unfolding consistent_def list_all_iff by (auto intro: distinct_filter)
  then show "noConflict s" by (simp add: consistent_iff)
  fix r c :: nat assume rc: "r < 9" "c < 9"
  from u rc have "set (rowValues s r) = {1..<10}" by (simp add: units_all)
  moreover have "s ! r ! c \<in> set (rowValues s r)" using rc by (simp add: rowValues_def)
  ultimately show "1 \<le> s ! r ! c \<and> s ! r ! c \<le> 9" by auto
qed

lemma solvedI:
  assumes w: "wf_grid s" and n: "noConflict s" and f: "\<And>r c. r < 9 \<Longrightarrow> c < 9 \<Longrightarrow> s ! r ! c \<noteq> 0"
  shows "solved s"
proof -
  have le: "\<And>r c. r < 9 \<Longrightarrow> c < 9 \<Longrightarrow> s ! r ! c \<le> 9" using w by (simp add: wf_grid_iff)
  note nc = noConflictD[OF n]
  have rows: "\<forall>r<9. mset (rowValues s r) = mset [1..<10]"
  proof (intro allI impI)
    fix r :: nat assume r: "r < 9"
    show "mset (rowValues s r) = mset [1..<10]"
      unfolding rowValues_def
    proof (rule perm19_I)
      fix i :: nat assume "i < 9" with r f le show "s ! r ! i \<noteq> 0 \<and> s ! r ! i \<le> 9" by simp
    next
      fix i j :: nat assume "i < 9" "j < 9" "i \<noteq> j"
      with r f show "s ! r ! i \<noteq> s ! r ! j" by (intro nc) (simp_all add: sameUnit_def)
    qed
  qed
  have cols: "\<forall>c<9. mset (colValues s c) = mset [1..<10]"
  proof (intro allI impI)
    fix c :: nat assume c: "c < 9"
    show "mset (colValues s c) = mset [1..<10]"
      unfolding colValues_def
    proof (rule perm19_I)
      fix i :: nat assume "i < 9" with c f le show "s ! i ! c \<noteq> 0 \<and> s ! i ! c \<le> 9" by simp
    next
      fix i j :: nat assume "i < 9" "j < 9" "i \<noteq> j"
      with c f show "s ! i ! c \<noteq> s ! j ! c" by (intro nc) (simp_all add: sameUnit_def)
    qed
  qed
  have u: "unitsDistinct s" using n by (simp add: unitsDistinct_noConflict)
  have boxes: "\<forall>k<9. mset (boxValues s k) = mset [1..<10]"
  proof (intro allI impI)
    fix k :: nat assume k: "k < 9"
    show "mset (boxValues s k) = mset [1..<10]"
      unfolding boxValues_def
    proof (rule perm19_I)
      fix i :: nat assume i: "i < 9"
      from cell_box(1,2)[OF k i] f le
      show "s ! (3 * (k div 3) + i div 3) ! (3 * (k mod 3) + i mod 3) \<noteq> 0
          \<and> s ! (3 * (k div 3) + i div 3) ! (3 * (k mod 3) + i mod 3) \<le> 9" by simp
    next
      fix i j :: nat assume i: "i < 9" and j: "j < 9" and ij: "i \<noteq> j"
      from cell_box(1,2)[OF k i] f
      have "s ! (3 * (k div 3) + i div 3) ! (3 * (k mod 3) + i mod 3) \<noteq> 0" by simp
      from unitsDistinct_box[OF u k i j ij this]
      show "s ! (3 * (k div 3) + i div 3) ! (3 * (k mod 3) + i mod 3)
          \<noteq> s ! (3 * (k div 3) + j div 3) ! (3 * (k mod 3) + j mod 3)" .
    qed
  qed
  show ?thesis unfolding solved_def units_all using w rows cols boxes by simp
qed

lemma finite_wf_grids: "finite {s. wf_grid s}"
proof -
  let ?R = "{xs :: nat list. set xs \<subseteq> {0..9} \<and> length xs = 9}"
  have fR: "finite ?R" by (rule finite_lists_length_eq) simp
  have "finite {b :: nat list list. set b \<subseteq> ?R \<and> length b = 9}"
    by (rule finite_lists_length_eq[OF fR])
  moreover have "{s. wf_grid s} \<subseteq> {b :: nat list list. set b \<subseteq> ?R \<and> length b = 9}"
    by (auto simp: wf_grid_def list_all_iff)
  ultimately show ?thesis by (rule rev_finite_subset)
qed

lemma finite_completions: "finite (completions g)"
  by (rule rev_finite_subset[OF finite_wf_grids]) (auto simp: completions_def solved_def)

lemma completions_full:
  assumes "wf_grid b" "noConflict b" "\<And>r c. r < 9 \<Longrightarrow> c < 9 \<Longrightarrow> b ! r ! c \<noteq> 0"
  shows "completions b = {b}"
proof -
  have sb: "solved b" using assms by (rule solvedI)
  have "s = b" if s: "solved s" "extends b s" for s
  proof (rule grid_eqI)
    show "shape9 s" using solved_cells(1)[OF s(1)] by (rule wf_grid_shape9)
    show "shape9 b" using assms(1) by (rule wf_grid_shape9)
    fix r c :: nat assume "r < 9" "c < 9"
    with s(2) assms(3) show "s ! r ! c = b ! r ! c" by (simp add: extends_iff)
  qed
  moreover have "extends b b" by (simp add: extends_iff)
  ultimately show ?thesis using sb by (auto simp: completions_def)
qed

lemma completions_noConflict:
  assumes "s \<in> completions b"
  shows "noConflict b"
  unfolding noConflict_def
proof (intro allI impI)
  fix r c r' c' :: nat
  assume r: "r < 9" and c: "c < 9" and r': "r' < 9" and c': "c' < 9"
    and h: "(r \<noteq> r' \<or> c \<noteq> c') \<and> sameUnit r c r' c' \<and> b ! r ! c \<noteq> 0"
  from assms have s: "solved s" and e: "extends b s" by (simp_all add: completions_def)
  note nc = noConflictD[OF solved_cells(2)[OF s]]
  from e r c h have 1: "s ! r ! c = b ! r ! c" by (simp add: extends_iff)
  with h have nz: "s ! r ! c \<noteq> 0" by simp
  from h have d: "r \<noteq> r' \<or> c \<noteq> c'" and su: "sameUnit r c r' c'" by simp_all
  have 2: "s ! r ! c \<noteq> s ! r' ! c'" by (rule nc[OF r c r' c' d su nz])
  show "b ! r ! c \<noteq> b ! r' ! c'"
  proof (cases "b ! r' ! c' = 0")
    case True with h show ?thesis by simp
  next
    case False
    with e r' c' have "s ! r' ! c' = b ! r' ! c'" by (simp add: extends_iff)
    with 1 2 show ?thesis by simp
  qed
qed

lemma completions_split:
  assumes sh: "shape9 b" and rc: "r < 9" "c < 9" and z: "b ! r ! c = 0"
  shows "completions b = (\<Union>d \<in> {1..9}. completions (setCell b r c d))"
proof (intro set_eqI iffI)
  fix s assume s: "s \<in> completions b"
  then have so: "solved s" and e: "extends b s" by (simp_all add: completions_def)
  from solved_cells(3)[OF so rc] have d: "s ! r ! c \<in> {1..9}" by simp
  have "extends (setCell b r c (s ! r ! c)) s"
    unfolding extends_iff using e sh rc by (simp add: setCell_nth extends_iff)
  with so d show "s \<in> (\<Union>d \<in> {1..9}. completions (setCell b r c d))"
    by (auto simp: completions_def)
next
  fix s assume "s \<in> (\<Union>d \<in> {1..9}. completions (setCell b r c d))"
  then obtain d where d: "d \<in> {1..9}" and so: "solved s" and e: "extends (setCell b r c d) s"
    by (auto simp: completions_def)
  have "extends b s"
    unfolding extends_iff
  proof (intro allI impI)
    fix r' c' :: nat assume h: "r' < 9" "c' < 9" "b ! r' ! c' \<noteq> 0"
    with z have ne: "\<not> (r' = r \<and> c' = c)" by auto
    from e h(1,2) have "setCell b r c d ! r' ! c' \<noteq> 0 \<longrightarrow> s ! r' ! c' = setCell b r c d ! r' ! c'"
      by (simp add: extends_iff)
    moreover have "setCell b r c d ! r' ! c' = b ! r' ! c'"
      using ne h sh rc by (auto simp: setCell_nth)
    ultimately show "s ! r' ! c' = b ! r' ! c'" using h by simp
  qed
  with so show "s \<in> completions b" by (simp add: completions_def)
qed

lemma completions_cell:
  assumes "shape9 b" "r < 9" "c < 9" "d \<noteq> 0" "s \<in> completions (setCell b r c d)"
  shows "s ! r ! c = d"
proof -
  from assms(5) have "extends (setCell b r c d) s" by (simp add: completions_def)
  with assms(1-4) show ?thesis by (simp add: extends_iff setCell_nth)
qed

lemma isValid_noConflict:
  assumes sh: "shape9 b" and n: "noConflict b" and rc: "r < 9" "c < 9" and z: "b ! r ! c = 0"
    and d: "d \<noteq> 0"
  shows "isValid b r c d \<longleftrightarrow> noConflict (setCell b r c d)"
proof
  assume v: "isValid b r c d"
  then have iv: "\<And>r' c'. r' < 9 \<Longrightarrow> c' < 9 \<Longrightarrow> sameUnit r c r' c' \<Longrightarrow> b ! r' ! c' \<noteq> d"
    by (simp add: isValid_iff[OF rc])
  note nc = noConflictD[OF n]
  show "noConflict (setCell b r c d)"
    unfolding noConflict_def
  proof (intro allI impI)
    fix p q p' q' :: nat
    assume p: "p < 9" and q: "q < 9" and p': "p' < 9" and q': "q' < 9"
      and h: "(p \<noteq> p' \<or> q \<noteq> q') \<and> sameUnit p q p' q' \<and> setCell b r c d ! p ! q \<noteq> 0"
    from h have df: "p \<noteq> p' \<or> q \<noteq> q'" and su: "sameUnit p q p' q'" by simp_all
    show "setCell b r c d ! p ! q \<noteq> setCell b r c d ! p' ! q'"
    proof (cases "p = r \<and> q = c")
      case True
      with df have ne: "\<not> (p' = r \<and> q' = c)" by auto
      from su True have "sameUnit r c p' q'" by simp
      from iv[OF p' q' this] True ne sh rc p' q' show ?thesis by (simp add: setCell_nth)
    next
      case False
      then have 1: "setCell b r c d ! p ! q = b ! p ! q" using sh rc p q by (auto simp: setCell_nth)
      with h have nz: "b ! p ! q \<noteq> 0" by simp
      show ?thesis
      proof (cases "p' = r \<and> q' = c")
        case True
        from su True have "sameUnit r c p q" by (simp add: sameUnit_sym)
        from iv[OF p q this] True 1 sh rc show ?thesis by (simp add: setCell_nth)
      next
        case F2: False
        then have 2: "setCell b r c d ! p' ! q' = b ! p' ! q'" using sh rc p' q' by (auto simp: setCell_nth)
        from nc[OF p q p' q' df su nz] show ?thesis by (simp add: 1 2)
      qed
    qed
  qed
next
  assume n': "noConflict (setCell b r c d)"
  note nc = noConflictD[OF n']
  show "isValid b r c d"
    unfolding isValid_iff[OF rc]
  proof (intro allI impI)
    fix r' c' :: nat assume h: "r' < 9" "c' < 9" "sameUnit r c r' c'"
    show "b ! r' ! c' \<noteq> d"
    proof (cases "r' = r \<and> c' = c")
      case True with z d show ?thesis by simp
    next
      case False
      then have df: "r \<noteq> r' \<or> c \<noteq> c'" by auto
      have nz: "setCell b r c d ! r ! c \<noteq> 0" using sh rc d by (simp add: setCell_nth)
      from nc[OF rc h(1,2) df h(3) nz] False sh rc h(1,2) show ?thesis
        by (simp add: setCell_nth)
    qed
  qed
qed

lemma isValid_stale:
  assumes sh: "shape9 b" and rc: "r < 9" "c < 9" and v: "b ! r ! c \<noteq> d" and d: "d \<noteq> 0"
  shows "isValid b r c d = isValid (setCell b r c 0) r c d"
  unfolding isValid_iff[OF rc]
proof (intro iffI allI impI)
  fix r' c' :: nat
  assume a: "\<forall>r'<9. \<forall>c'<9. sameUnit r c r' c' \<longrightarrow> b ! r' ! c' \<noteq> d"
    and h: "r' < 9" "c' < 9" "sameUnit r c r' c'"
  then have "b ! r' ! c' \<noteq> d" by simp
  with sh rc h d show "setCell b r c 0 ! r' ! c' \<noteq> d" by (simp add: setCell_nth)
next
  fix r' c' :: nat
  assume a: "\<forall>r'<9. \<forall>c'<9. sameUnit r c r' c' \<longrightarrow> setCell b r c 0 ! r' ! c' \<noteq> d"
    and h: "r' < 9" "c' < 9" "sameUnit r c r' c'"
  then have "setCell b r c 0 ! r' ! c' \<noteq> d" by simp
  with sh rc h v show "b ! r' ! c' \<noteq> d" by (simp add: setCell_nth split: if_splits)
qed

subsection \<open>The uniqueness counter counts the completions\<close>

lemma wf_setCell: "wf_grid b \<Longrightarrow> r < 9 \<Longrightarrow> c < 9 \<Longrightarrow> v \<le> 9 \<Longrightarrow> wf_grid (setCell b r c v)"
  unfolding wf_grid_iff by (auto simp: shape9_setCell setCell_nth)

lemma index_inj: "r < 9 \<Longrightarrow> r' < 9 \<Longrightarrow> c' * 9 + r' = c * 9 + r \<Longrightarrow> r' = r \<and> c' = c"
  for r r' c c' :: nat
  by arith

lemma filledBefore_step:
  assumes sh: "shape9 b" and rc: "r < 9" "c < 9" and f: "filledBefore (setCell b r c 0) (c * 9 + r)"
    and v: "v \<noteq> 0"
  shows "filledBefore (setCell b r c v) (c * 9 + (r + 1))"
  unfolding filledBefore_def
proof (intro allI impI)
  fix r' c' :: nat assume h: "r' < 9" "c' < 9" "c' * 9 + r' < c * 9 + (r + 1)"
  show "setCell b r c v ! r' ! c' \<noteq> 0"
  proof (cases "r' = r \<and> c' = c")
    case True
    with sh rc v show ?thesis by (simp add: setCell_nth)
  next
    case False
    with index_inj[OF rc(1) h(1), of c' c] have "c' * 9 + r' \<noteq> c * 9 + r" by blast
    with h(3) have "c' * 9 + r' < c * 9 + r" by simp
    with f h(1,2) have "setCell b r c 0 ! r' ! c' \<noteq> 0" by (simp add: filledBefore_def)
    with False sh rc h(1,2) show ?thesis by (auto simp: setCell_nth)
  qed
qed

lemma filledBefore_skip:
  assumes rc: "r < 9" "c < 9" and f: "filledBefore b (c * 9 + r)" and v: "b ! r ! c \<noteq> 0"
  shows "filledBefore b (c * 9 + (r + 1))"
  unfolding filledBefore_def
proof (intro allI impI)
  fix r' c' :: nat assume h: "r' < 9" "c' < 9" "c' * 9 + r' < c * 9 + (r + 1)"
  show "b ! r' ! c' \<noteq> 0"
  proof (cases "r' = r \<and> c' = c")
    case True with v show ?thesis by simp
  next
    case False
    with index_inj[OF rc(1) h(1), of c' c] have "c' * 9 + r' \<noteq> c * 9 + r" by blast
    with h(3) have "c' * 9 + r' < c * 9 + r" by simp
    with f h(1,2) show ?thesis by (simp add: filledBefore_def)
  qed
qed

lemma filledBefore_all:
  assumes "filledBefore b 81" "r < 9" "c < 9"
  shows "b ! r ! c \<noteq> 0"
proof -
  have "c * 9 + r < 81" using assms(2,3) by arith
  with assms show ?thesis by (simp add: filledBefore_def)
qed

lemma fromDigit_empty: "9 < num \<Longrightarrow> fromDigit b r c num = {}"
  by (simp add: fromDigit_def)

lemma fromDigit_step:
  "num \<le> 9 \<Longrightarrow> fromDigit b r c num = completions (setCell b r c num) \<union> fromDigit b r c (num + 1)"
proof -
  assume "num \<le> 9"
  then have "{num..9} = insert num {num + 1..9}" by auto
  then show ?thesis by (simp add: fromDigit_def)
qed

lemma finite_fromDigit: "finite (fromDigit b r c num)"
  by (simp add: fromDigit_def finite_completions)

lemma fromDigit_disjoint:
  assumes "shape9 b" "r < 9" "c < 9" "num \<noteq> 0"
  shows "completions (setCell b r c num) \<inter> fromDigit b r c (num + 1) = {}"
proof (rule ccontr)
  assume "completions (setCell b r c num) \<inter> fromDigit b r c (num + 1) \<noteq> {}"
  then obtain s d where s: "s \<in> completions (setCell b r c num)" and d: "Suc num \<le> d" "d \<le> 9"
    and s': "s \<in> completions (setCell b r c d)" by (auto simp: fromDigit_def)
  from completions_cell[OF assms s] have "s ! r ! c = num" .
  moreover from d have "d \<noteq> 0" by simp
  from completions_cell[OF assms(1,2,3) this s'] have "s ! r ! c = d" .
  ultimately show False using d by simp
qed

lemma card_fromDigit_step:
  assumes "shape9 b" "r < 9" "c < 9" "num \<noteq> 0" "num \<le> 9"
  shows "card (fromDigit b r c num) = card (completions (setCell b r c num)) + card (fromDigit b r c (num + 1))"
  unfolding fromDigit_step[OF assms(5)]
  by (rule card_Un_disjoint[OF finite_completions finite_fromDigit fromDigit_disjoint[OF assms(1-4)]])

lemma completions_invalid:
  assumes sh: "shape9 b" and n: "noConflict b" and rc: "r < 9" "c < 9" and z: "b ! r ! c = 0"
    and d: "d \<noteq> 0" and v: "\<not> isValid b r c d"
  shows "completions (setCell b r c d) = {}"
proof (rule ccontr)
  assume "completions (setCell b r c d) \<noteq> {}"
  then obtain s where "s \<in> completions (setCell b r c d)" by blast
  then have "noConflict (setCell b r c d)" by (rule completions_noConflict)
  with isValid_noConflict[OF sh n rc z d] v show False by simp
qed

lemma min2_add: "min 2 (min 2 (k + a) + m) = min 2 (k + (a + m))" for k a m :: nat
  by simp

lemma count_correct:
  "row \<le> 9 \<longrightarrow> col < 9 \<longrightarrow> wf_grid b \<longrightarrow> noConflict b \<longrightarrow> filledBefore b (col * 9 + row) \<longrightarrow> k < 2 \<longrightarrow>
     countSolutionsHelper b row col k = Some (min 2 (k + card (completions b)), b)"
  "row < 9 \<longrightarrow> col < 9 \<longrightarrow> wf_grid b \<longrightarrow> noConflict b \<longrightarrow> filledBefore b (col * 9 + row) \<longrightarrow> k < 2 \<longrightarrow>
     countCell b row col k = Some (min 2 (k + card (completions b)), b)"
  "row < 9 \<longrightarrow> col < 9 \<longrightarrow> wf_grid b \<longrightarrow> noConflict (setCell b row col 0) \<longrightarrow>
     filledBefore (setCell b row col 0) (col * 9 + row) \<longrightarrow> b ! row ! col < num \<longrightarrow> k \<le> 2 \<longrightarrow>
     countDigits b row col num k = Some (min 2 (k + card (fromDigit b row col num)), setCell b row col 0)"
proof (induction b row col k and b row col k and b row col num k
    rule: countSolutionsHelper_countCell_countDigits.induct)
  case (1 b row col cnt)
  show ?case
  proof (intro impI)
    assume row: "row \<le> 9" and col: "col < 9" and w: "wf_grid b" and n: "noConflict b"
      and f: "filledBefore b (col * 9 + row)" and k: "cnt < 2"
    have rng: "\<not> (9 < row \<or> 9 \<le> col)" using row col by simp
    show "countSolutionsHelper b row col cnt = Some (min 2 (cnt + card (completions b)), b)"
    proof (cases "row = 9")
      case True
      show ?thesis
      proof (cases "col + 1 = 9")
        case c8: True
        have "col * 9 + row = 81" using True c8 by simp
        with f have "filledBefore b 81" by (simp only:)
        then have "\<And>r c. r < 9 \<Longrightarrow> c < 9 \<Longrightarrow> b ! r ! c \<noteq> 0" by (rule filledBefore_all)
        with w n have "completions b = {b}" by (rule completions_full)
        with k True c8 rng show ?thesis by (subst countSolutionsHelper.simps) simp
      next
        case False
        have "(col + 1) * 9 + 0 = col * 9 + row" using True by simp
        with f have f': "filledBefore b ((col + 1) * 9 + 0)" by (simp only:)
        from "1.IH"(1)[OF rng True False] False col w n f' k
        have "countCell b 0 (col + 1) cnt = Some (min 2 (cnt + card (completions b)), b)" by simp
        with True False rng show ?thesis by (subst countSolutionsHelper.simps) simp
      qed
    next
      case False
      with row have r: "row < 9" by simp
      from "1.IH"(2)[OF rng False] r col w n f k
      have "countCell b row col cnt = Some (min 2 (cnt + card (completions b)), b)" by simp
      with False rng show ?thesis by (subst countSolutionsHelper.simps) simp
    qed
  qed
next
  case (2 b row col cnt)
  show ?case
  proof (intro impI)
    assume row: "row < 9" and col: "col < 9" and w: "wf_grid b" and n: "noConflict b"
      and f: "filledBefore b (col * 9 + row)" and k: "cnt < 2"
    have sh: "shape9 b" using w by (rule wf_grid_shape9)
    show "countCell b row col cnt = Some (min 2 (cnt + card (completions b)), b)"
    proof (cases "b ! row ! col \<noteq> 0")
      case True
      have f': "filledBefore b (col * 9 + (row + 1))" by (rule filledBefore_skip[OF row col f True])
      from "2.IH"(1)[OF True] row col w n f' k
      have "countSolutionsHelper b (row + 1) col cnt = Some (min 2 (cnt + card (completions b)), b)"
        by simp
      with True show ?thesis by (subst countCell.simps) simp
    next
      case False
      then have z: "b ! row ! col = 0" by simp
      have same: "setCell b row col 0 = b" using setCell_same[OF sh row col] z by simp
      from "2.IH"(2)[OF False] row col w n f k z
      have "countDigits b row col 1 cnt = Some (min 2 (cnt + card (fromDigit b row col 1)), b)"
        by (simp add: same)
      moreover have "fromDigit b row col 1 = completions b"
        unfolding fromDigit_def completions_split[OF sh row col z] ..
      ultimately show ?thesis using z by (subst countCell.simps) simp
    qed
  qed
next
  case (3 b row col num cnt)
  show ?case
  proof (intro impI)
    assume row: "row < 9" and col: "col < 9" and w: "wf_grid b"
      and n: "noConflict (setCell b row col 0)"
      and f: "filledBefore (setCell b row col 0) (col * 9 + row)"
      and v: "b ! row ! col < num" and k: "cnt \<le> 2"
    have sh: "shape9 b" using w by (rule wf_grid_shape9)
    have sh0: "shape9 (setCell b row col 0)" using sh by (rule shape9_setCell)
    have z0: "setCell b row col 0 ! row ! col = 0" using sh row col by (simp add: setCell_nth)
    have nz: "num \<noteq> 0" using v by simp
    show "countDigits b row col num cnt
        = Some (min 2 (cnt + card (fromDigit b row col num)), setCell b row col 0)"
    proof (cases "num \<le> 9 \<and> cnt < 2")
      case False
      then have "9 < num \<or> cnt = 2" using k by auto
      then have "min 2 (cnt + card (fromDigit b row col num)) = cnt"
        using k by (auto simp: fromDigit_empty)
      moreover have "(if num \<le> 9 \<and> cnt < 2 then x else y) = y" for x y :: "(nat \<times> SudokuBoard) option"
        by (rule if_not_P[OF False])
      ultimately show ?thesis by (subst countDigits.simps) (simp only:)
    next
      case True
      then have n9: "num \<le> 9" and k2: "cnt < 2" by simp_all
      have stale: "isValid b row col num = isValid (setCell b row col 0) row col num"
        using v nz by (intro isValid_stale[OF sh row col]) simp_all
      have cs: "card (fromDigit b row col num)
          = card (completions (setCell b row col num)) + card (fromDigit b row col (num + 1))"
        by (rule card_fromDigit_step[OF sh row col nz n9])
      show ?thesis
      proof (cases "isValid b row col num")
        case valid: True
        let ?b1 = "setCell b row col num"
        have w1: "wf_grid ?b1" by (rule wf_setCell[OF w row col n9])
        have n1: "noConflict ?b1"
          using isValid_noConflict[OF sh0 n row col z0 nz] valid stale
          by (simp add: setCell_twice)
        have f1: "filledBefore ?b1 (col * 9 + (row + 1))"
          by (rule filledBefore_step[OF sh row col f nz])
        from "3.IH"(1)[OF True valid] row col w1 n1 f1 k2
        have h1: "countSolutionsHelper ?b1 (row + 1) col cnt
            = Some (min 2 (cnt + card (completions ?b1)), ?b1)" by simp
        have v1: "?b1 ! row ! col < num + 1" using sh row col by (simp add: setCell_nth)
        from "3.IH"(2)[OF True valid h1 refl] row col w1 n f v1
        have h2: "countDigits ?b1 row col (num + 1) (min 2 (cnt + card (completions ?b1)))
            = Some (min 2 (min 2 (cnt + card (completions ?b1)) + card (fromDigit ?b1 row col (num + 1))),
                    setCell ?b1 row col 0)"
          by (simp add: setCell_twice)
        have fd: "fromDigit ?b1 row col (Suc num) = fromDigit b row col (Suc num)"
          by (simp add: fromDigit_def setCell_twice)
        show ?thesis
          using True valid h1 h2
          by (subst countDigits.simps) (simp add: fd cs setCell_twice min2_add del: min_add_distrib_left min_add_distrib_right)
      next
        case invalid: False
        then have "\<not> isValid (setCell b row col 0) row col num" using stale by simp
        from completions_invalid[OF sh0 n row col z0 nz this]
        have e: "completions (setCell b row col num) = {}" by (simp add: setCell_twice)
        have v1: "b ! row ! col < num + 1" using v by simp
        from "3.IH"(3)[OF True invalid] row col w n f v1 k
        have "countDigits b row col (num + 1) cnt
            = Some (min 2 (cnt + card (fromDigit b row col (num + 1))), setCell b row col 0)" by simp
        with True invalid show ?thesis
          by (subst countDigits.simps) (simp add: cs e)
      qed
    qed
  qed
qed

lemma filledBefore_0: "filledBefore b 0"
  by (simp add: filledBefore_def)

lemma countSolutionsHelper_start:
  assumes "wf_grid g" and "noConflict g"
  shows "countSolutionsHelper g 0 0 0 = Some (min 2 (card (completions g)), g)"
proof -
  have f: "filledBefore g (0 * 9 + 0)" by (simp add: filledBefore_0)
  from count_correct(1)[of 0 0 g 0] assms f show ?thesis by simp
qed


text \<open>
  Claim C7, as amended. For every 9x9 grid of digits 0..9 in which no row, column or box
  holds a digit twice, \<open>countSolutions\<close> returns \<open>min (N, 2)\<close>, where \<open>N\<close> is the number
  of completions of the grid (solved grids that agree with it on its non-empty cells).
  The helper runs on a copy, and it hands even this copy back as it received it, every
  cell reset: no array is left changed.
\<close>

theorem countSolutions_exact:
  assumes "wf_grid g" and "consistent g"
  shows "countSolutions g = Some (min (card (completions g)) 2)
       \<and> countSolutionsHelper (map (\<lambda>row. row) g) 0 0 0 = Some (min (card (completions g)) 2, g)"
proof -
  have n: "noConflict g" using assms(2) by (simp add: consistent_iff)
  from countSolutionsHelper_start[OF assms(1) n] show ?thesis
    by (simp add: countSolutions_def min.commute)
qed

theorem countSolutions_exact_witness:
  "wf_grid twoWayPuzzle \<and> consistent twoWayPuzzle
   \<and> countSolutions twoWayPuzzle = Some (min (card (completions twoWayPuzzle)) 2)
   \<and> countSolutions twoWayPuzzle = Some 2"
proof -
  have a: "wf_grid twoWayPuzzle" "consistent twoWayPuzzle" by code_simp+
  have b: "countSolutions twoWayPuzzle = Some 2" by code_simp
  from countSolutions_exact[OF a] a b show ?thesis by simp
qed

text \<open>
  Claim C7 as stated fails on a grid whose givens conflict: the grid of 81 ones has no
  completion, and \<open>countSolutions\<close> returns 1 (the search never compares the givens with
  each other).
\<close>

theorem countSolutions_conflicting_givens:
  "wf_grid allOnes \<and> countSolutions allOnes = Some 1 \<and> completions allOnes = {}
   \<and> min (card (completions allOnes)) 2 = 0"
proof -
  have w: "wf_grid allOnes" by code_simp
  have c: "countSolutions allOnes = Some 1" by code_simp
  have "\<not> consistent allOnes" by code_simp
  then have "\<not> noConflict allOnes" by (simp add: consistent_iff)
  then have e: "completions allOnes = {}" using completions_noConflict by blast
  from w c e show ?thesis by simp
qed

subsection \<open>The order of the search\<close>

lemma columnMajor_drop:
  assumes "n < 81"
  shows "drop n columnMajor = (n mod 9, n div 9) # drop (Suc n) columnMajor"
proof -
  have "n < length columnMajor" using assms by (simp add: columnMajor_def)
  then have "drop n columnMajor = columnMajor ! n # drop (Suc n) columnMajor"
    by (rule Cons_nth_drop_Suc[symmetric])
  moreover have "columnMajor ! n = (n mod 9, n div 9)" using assms by (simp add: columnMajor_def)
  ultimately show ?thesis by simp
qed

lemma columnMajor_cell:
  assumes "row < 9" "col < 9"
  shows "drop (col * 9 + row) columnMajor = (row, col) # drop (col * 9 + (row + 1)) columnMajor"
proof -
  have "col * 9 + row < 81" using assms by arith
  from columnMajor_drop[OF this] assms(1) show ?thesis by simp
qed

lemma columnMajor_end: "drop 81 columnMajor = []"
  by (simp add: columnMajor_def)

lemma solve_search:
  "row \<le> 9 \<longrightarrow> col < 9 \<longrightarrow> solveSudoku b row col = Some (search (drop (col * 9 + row) columnMajor) b)"
  "row < 9 \<longrightarrow> col < 9 \<longrightarrow> solveCell b row col = Some (search (drop (col * 9 + row) columnMajor) b)"
  "row < 9 \<longrightarrow> col < 9 \<longrightarrow>
     solveDigits b row col num = Some (tryDigits (drop (col * 9 + (row + 1)) columnMajor) row col [num..<10] b)"
proof (induction b row col and b row col and b row col num
    rule: solveSudoku_solveCell_solveDigits.induct)
  case (1 b row col)
  show ?case
  proof (intro impI)
    assume row: "row \<le> 9" and col: "col < 9"
    have rng: "\<not> (9 < row \<or> 9 \<le> col)" using row col by simp
    show "solveSudoku b row col = Some (search (drop (col * 9 + row) columnMajor) b)"
    proof (cases "row = 9")
      case True
      show ?thesis
      proof (cases "col + 1 = 9")
        case c8: True
        then have "col * 9 + row = 81" using True by simp
        then have "drop (col * 9 + row) columnMajor = []" by (simp only: columnMajor_end)
        with True c8 rng show ?thesis by (subst solveSudoku.simps) simp
      next
        case False
        have e: "col * 9 + row = (col + 1) * 9 + 0" using True by simp
        from "1.IH"(1)[OF rng True False] False col
        have "solveCell b 0 (col + 1) = Some (search (drop ((col + 1) * 9 + 0) columnMajor) b)" by simp
        with True False rng show ?thesis unfolding e by (subst solveSudoku.simps) simp
      qed
    next
      case False
      with row have r: "row < 9" by simp
      from "1.IH"(2)[OF rng False] r col
      have "solveCell b row col = Some (search (drop (col * 9 + row) columnMajor) b)" by simp
      with False rng show ?thesis by (subst solveSudoku.simps) simp
    qed
  qed
next
  case (2 b row col)
  show ?case
  proof (intro impI)
    assume row: "row < 9" and col: "col < 9"
    note cell = columnMajor_cell[OF row col]
    show "solveCell b row col = Some (search (drop (col * 9 + row) columnMajor) b)"
    proof (cases "b ! row ! col \<noteq> 0")
      case True
      from "2.IH"(1)[OF True] row col
      have "solveSudoku b (row + 1) col = Some (search (drop (col * 9 + (row + 1)) columnMajor) b)"
        by simp
      with True show ?thesis unfolding cell by (subst solveCell.simps) simp
    next
      case False
      from "2.IH"(2)[OF False] row col
      have "solveDigits b row col 1
          = Some (tryDigits (drop (col * 9 + (row + 1)) columnMajor) row col [1..<10] b)" by simp
      with False show ?thesis unfolding cell by (subst solveCell.simps) simp
    qed
  qed
next
  case (3 b row col num)
  show ?case
  proof (intro impI)
    assume row: "row < 9" and col: "col < 9"
    let ?rest = "drop (col * 9 + (row + 1)) columnMajor"
    show "solveDigits b row col num = Some (tryDigits ?rest row col [num..<10] b)"
    proof (cases "num \<le> 9")
      case False
      then have "[num..<10] = []" by simp
      with False show ?thesis by (subst solveDigits.simps) simp
    next
      case True
      then have u: "[num..<10] = num # [num + 1..<10]" by (simp add: upt_conv_Cons)
      show ?thesis
      proof (cases "isValid b row col num")
        case valid: True
        from "3.IH"(1)[OF True valid] row col
        have h1: "solveSudoku (setCell b row col num) (row + 1) col
            = Some (search ?rest (setCell b row col num))" by simp
        obtain found b' where s: "search ?rest (setCell b row col num) = (found, b')"
          by (cases "search ?rest (setCell b row col num)")
        show ?thesis
        proof (cases found)
          case f: True
          with True valid h1 s show ?thesis unfolding u by (subst solveDigits.simps) simp
        next
          case nf: False
          from "3.IH"(2)[OF True valid h1[unfolded s] refl nf] row col
          have "solveDigits b' row col (num + 1) = Some (tryDigits ?rest row col [num + 1..<10] b')"
            by simp
          with True valid h1 s nf show ?thesis unfolding u by (subst solveDigits.simps) simp
        qed
      next
        case invalid: False
        from "3.IH"(3)[OF True invalid] row col
        have "solveDigits b row col (num + 1) = Some (tryDigits ?rest row col [num + 1..<10] b)"
          by simp
        with True invalid show ?thesis unfolding u by (subst solveDigits.simps) simp
      qed
    qed
  qed
qed

text \<open>
  Claim C6, as amended. From \<open>(0, 0)\<close> the search visits the cells in column-major order
  (down the rows of column 0, then column 1, and so on), skips the cells already filled,
  tries the digits 1..9 in ascending order at each empty cell, and resets the cell to 0
  when all digits are exhausted, before it returns to the cell before: it is the
  depth-first search \<open>search\<close> over \<open>columnMajor\<close>, for every board.
\<close>

theorem solveSudoku_column_major:
  "solveSudoku b 0 0 = Some (search columnMajor b)"
  using solve_search(1)[of 0 0 b] by simp

text \<open>
  Claim C6 as stated fails: on the grid \<open>twoWayPuzzle\<close>, whose first empty cell is
  \<open>(0, 3)\<close> in row-major and \<open>(3, 0)\<close> in column-major order, the code finds another
  completion than the row-major search does.
\<close>

theorem solveSudoku_not_row_major:
  "solveSudoku twoWayPuzzle 0 0 = Some (True, twoWayFirst)
   \<and> search rowMajor twoWayPuzzle = (True, twoWaySecond)
   \<and> twoWayFirst \<noteq> twoWaySecond
   \<and> solveSudoku twoWayPuzzle 0 0 \<noteq> Some (search rowMajor twoWayPuzzle)"
proof -
  have a: "solveSudoku twoWayPuzzle 0 0 = Some (True, twoWayFirst)" by code_simp
  have b: "search rowMajor twoWayPuzzle = (True, twoWaySecond)" by code_simp
  have c: "twoWayFirst \<noteq> twoWaySecond" by code_simp
  from a b c show ?thesis by simp
qed

subsection \<open>The carver keeps the solution unique\<close>








end
